theory Spec2Isabelle
  imports Main "HOL-Library.Word"
begin

section \<open>Events and the wire format (sse/event.go)\<close>

text \<open>
  Go strings and byte slices are byte sequences: both are \<open>string\<close> here. A
  \<open>time.Duration\<close> is a 64-bit integer counting nanoseconds.
\<close>

type_synonym Duration = "64 word"

abbreviation LF :: char where
  "LF \<equiv> CHR 0x0A"

abbreviation CR :: char where
  "CR \<equiv> CHR 0x0D"

text \<open>
  Modelled from the spec: the field \<open>Retry\<close> of \<open>Event\<close>, the optional retry interval
  of an event, zero when the event carries none. event\_source.go and its tests
  read this field, of type \<open>time.Duration\<close>; the declarations of the struct in
  event.go and reader.go give the fields \<open>ID\<close>, \<open>Name\<close> and \<open>Data\<close> only, and
  \<open>Encode\<close>, \<open>Write\<close> and \<open>Reader.Next\<close> do not touch it.
\<close>

record Event =
  ID :: string
  Name :: string
  Data :: string
  Retry :: Duration

text \<open>The zero value \<open>Event{}\<close>, also what \<open>var event Event\<close> declares.\<close>

definition zero_Event :: Event where
  "zero_Event = \<lparr>ID = [], Name = [], Data = [], Retry = 0\<rparr>"

text \<open>
  \<open>bytes.Split(s, sep)\<close> for the one-byte separator the code passes: the pieces of
  \<open>s\<close> between the separators; the empty slice gives one empty piece.
\<close>

fun bytes_Split :: "string \<Rightarrow> char \<Rightarrow> string list" where
  "bytes_Split [] sep = [[]]"
| "bytes_Split (c # cs) sep =
     (if c = sep then [] # bytes_Split cs sep
      else (c # hd (bytes_Split cs sep)) # tl (bytes_Split cs sep))"

text \<open>The body of the loop of \<open>Encode\<close>: one data line for a fragment.\<close>

definition encode_line :: "string \<Rightarrow> string \<Rightarrow> string" where
  "encode_line enc line =
     (if length line = 0 then enc @ ''data'' @ [LF]
      else enc @ ''data: '' @ line @ [LF])"

definition Encode :: "Event \<Rightarrow> string" where
  "Encode event =
     (let enc = ''id: '' @ ID event @ [LF] @ ''event: '' @ Name event @ [LF];
          enc = foldl encode_line enc (bytes_Split (Data event) LF)
      in enc @ [LF])"

section \<open>Errors\<close>

text \<open>
  The error values the package returns. A response (event\_source.go) is its status
  code and its body; the body is the environment's script of what reading it yields.
  \<open>ReadFailure\<close> stands for any read or transport error other than \<open>io.EOF\<close>,
  told apart by a code; \<open>NilPointerPanic\<close> is the panic of a call through a nil
  pointer.
\<close>

datatype read_outcome = Dispatch Event | EndOfData | ReadFailure nat

record Body =
  incoming :: "read_outcome list"
  close_error :: "nat option"

record Response =
  StatusCode :: int
  ResponseBody :: Body

datatype error =
    EOF
  | ErrReadFromClosedSource
  | BadResponseError Response
  | OtherError nat
  | NilPointerPanic

section \<open>The parser (sse/reader.go)\<close>

text \<open>
  A \<open>Reader\<close> holds the remembered id and a \<open>bufio.Reader\<close> over its source. The
  source is the bytes it still has to deliver and the error it returns once they
  are used up (\<open>io.EOF\<close> for a stream that ended).
\<close>

record Reader =
  lastID :: string
  buf :: string
  source_err :: error

definition NewReader :: "string \<Rightarrow> error \<Rightarrow> Reader" where
  "NewReader source e = \<lparr>lastID = [], buf = source, source_err = e\<rparr>"

text \<open>
  \<open>bufio.Reader.ReadString(delim)\<close>: the bytes up to and including the first
  delimiter, and the bytes left; \<open>None\<close> when the source ends before a delimiter
  (the call then returns the source's error, and the bytes read are used up).
\<close>

fun ReadString :: "string \<Rightarrow> char \<Rightarrow> (string \<times> string) option" where
  "ReadString [] delim = None"
| "ReadString (c # cs) delim =
     (if c = delim then Some ([c], cs)
      else (case ReadString cs delim of
              None \<Rightarrow> None
            | Some (line, rest) \<Rightarrow> Some (c # line, rest)))"

text \<open>\<open>strings.SplitN(line, ":", 2)\<close>: the line cut at its first colon, if it has one.\<close>

definition SplitN2 :: "string \<Rightarrow> string list" where
  "SplitN2 line =
     (if CHR '':'' \<in> set line
      then [takeWhile (\<lambda>c. c \<noteq> CHR '':'') line, tl (dropWhile (\<lambda>c. c \<noteq> CHR '':'') line)]
      else [line])"

text \<open>
  The loop of \<open>Reader.Next\<close>, over the event under construction, the flag
  \<open>idPresent\<close> and the reader. Each round reads one line.
\<close>

function Reader_Next_loop :: "Event \<Rightarrow> bool \<Rightarrow> Reader \<Rightarrow> (error + Event) \<times> Reader" where
  "Reader_Next_loop event idPresent reader =
     (case ReadString (buf reader) LF of
        None \<Rightarrow> (Inl (source_err reader), reader\<lparr>buf := []\<rparr>)
      | Some (line0, rest) \<Rightarrow>
          (let reader1 = reader\<lparr>buf := rest\<rparr>;
               line = take (length line0 - 1) line0
           in if length line = 0 then
                (if length (Data event) = 0 then Reader_Next_loop event idPresent reader1
                 else
                   (let reader2 = (if idPresent then reader1\<lparr>lastID := ID event\<rparr> else reader1);
                        event1 = event\<lparr>Data := take (length (Data event) - 1) (Data event)\<rparr>
                    in (Inr event1, reader2)))
              else if line ! 0 = CHR '':'' then Reader_Next_loop event idPresent reader1
              else
                (let segments = SplitN2 line;
                     field = segments ! 0;
                     value0 = (if length segments = 1 then [] else segments ! 1);
                     value = (if length value0 > 0 \<and> value0 ! 0 = CHR '' '' then drop 1 value0 else value0)
                 in if field = ''id'' then Reader_Next_loop (event\<lparr>ID := value\<rparr>) True reader1
                    else if field = ''event'' then Reader_Next_loop (event\<lparr>Name := value\<rparr>) idPresent reader1
                    else if field = ''data'' then
                      Reader_Next_loop (event\<lparr>Data := Data event @ value @ [LF]\<rparr>) idPresent reader1
                    else Reader_Next_loop event idPresent reader1)))"
  by pat_completeness auto
termination
proof -
  have shorter: "length rest < length s" if "ReadString s d = Some (line, rest)"
    for s d line rest
    using that by (induction s arbitrary: line) (auto split: if_splits option.splits)
  show ?thesis
    by (relation "measure (\<lambda>(event, idPresent, reader). length (buf reader))")
       (auto dest: shorter)
qed

declare Reader_Next_loop.simps [simp del]

definition Reader_Next :: "Reader \<Rightarrow> (error + Event) \<times> Reader" where
  "Reader_Next reader = Reader_Next_loop (zero_Event\<lparr>ID := lastID reader\<rparr>) False reader"


text \<open>\<open>n\<close> successive calls of \<open>Reader.Next\<close> on one reader: the results, in order.\<close>

fun Next_times :: "nat \<Rightarrow> Reader \<Rightarrow> (error + Event) list \<times> Reader" where
  "Next_times 0 reader = ([], reader)"
| "Next_times (Suc n) reader =
     (case Reader_Next reader of
        (res, reader1) \<Rightarrow>
          (case Next_times n reader1 of (ress, reader2) \<Rightarrow> (res # ress, reader2)))"

section \<open>Writing an event (Event.Write)\<close>

text \<open>
  The destination is an \<open>io.Writer\<close>: the bytes written to it so far, and what it
  answers to the coming writes (\<open>None\<close>: the text is written; \<open>Some e\<close>: the write
  fails with \<open>e\<close>). Past that script every write succeeds. \<open>fmt.Fprintf\<close> formats
  its text and hands it to the destination in one write.
\<close>

record Writer =
  written :: string
  outcomes :: "error option list"

definition Fprintf :: "Writer \<Rightarrow> string \<Rightarrow> error option \<times> Writer" where
  "Fprintf destination text =
     (case outcomes destination of
        [] \<Rightarrow> (None, destination\<lparr>written := written destination @ text\<rparr>)
      | None # os \<Rightarrow> (None, destination\<lparr>written := written destination @ text, outcomes := os\<rparr>)
      | Some e # os \<Rightarrow> (Some e, destination\<lparr>outcomes := os\<rparr>))"

text \<open>The loop of \<open>Write\<close> over the fragments of the data; it returns at the first error.\<close>

fun Write_lines :: "string list \<Rightarrow> Writer \<Rightarrow> error option \<times> Writer" where
  "Write_lines [] destination = (None, destination)"
| "Write_lines (line # lines) destination =
     (case (if length line = 0 then Fprintf destination (''data'' @ [LF])
            else Fprintf destination (''data: '' @ line @ [LF])) of
        (Some err, destination1) \<Rightarrow> (Some err, destination1)
      | (None, destination1) \<Rightarrow> Write_lines lines destination1)"

definition Write :: "Event \<Rightarrow> Writer \<Rightarrow> error option \<times> Writer" where
  "Write event destination =
     (case Fprintf destination (''id: '' @ ID event @ [LF]) of
        (Some err, destination1) \<Rightarrow> (Some err, destination1)
      | (None, destination1) \<Rightarrow>
          (case Fprintf destination1 (''event: '' @ Name event @ [LF]) of
             (Some err, destination2) \<Rightarrow> (Some err, destination2)
           | (None, destination2) \<Rightarrow>
               (case Write_lines (bytes_Split (Data event) LF) destination2 of
                  (Some err, destination3) \<Rightarrow> (Some err, destination3)
                | (None, destination3) \<Rightarrow> Fprintf destination3 [LF])))"

section \<open>The reconnecting session (sse/event\_source.go)\<close>

text \<open>
  Modelled from the spec: the type \<open>ReadCloser\<close>, its constructor \<open>NewReadCloser\<close>
  and its methods \<open>Next\<close> and \<open>Close\<close>, which event\_source.go uses and which are
  not among the sources. The current stream is the open transport body together
  with its parser; reading it yields the next event, the end of the data, or a
  failure, as the body's script says; closing it closes the transport body, whose
  close may fail.
\<close>

datatype ReadCloser = NewReadCloser Body

fun ReadCloser_Next :: "ReadCloser \<Rightarrow> ((error + Event) \<times> ReadCloser) option" where
  "ReadCloser_Next (NewReadCloser body) =
     (case incoming body of
        [] \<Rightarrow> None
      | Dispatch event # rest \<Rightarrow> Some (Inr event, NewReadCloser (body\<lparr>incoming := rest\<rparr>))
      | EndOfData # rest \<Rightarrow> Some (Inl EOF, NewReadCloser (body\<lparr>incoming := rest\<rparr>))
      | ReadFailure n # rest \<Rightarrow> Some (Inl (OtherError n), NewReadCloser (body\<lparr>incoming := rest\<rparr>)))"

text \<open>
  The fields of \<open>EventSource\<close>. The two locks are left out: the operations are
  modelled one at a time. \<open>Client\<close> and \<open>CreateRequest\<close> are the environment, below.
\<close>

record EventSource =
  DefaultRetryInterval :: Duration
  currentReadCloser :: "ReadCloser option"
  lastEventID :: string
  retryInterval :: Duration
  closed :: bool

text \<open>
  The environment of a session: what \<open>Client.Do\<close> answers to the coming requests
  (\<open>Inl\<close>: a transport error; \<open>Inr\<close>: a response), and the record of what the session
  did: the \<open>Last-Event-ID\<close> header of each request it made, each \<open>time.Sleep\<close>, each
  body it closed. An operation that needs an answer the script does not hold does
  not return: its value is \<open>None\<close>.
\<close>

record World =
  transport :: "(nat + Response) list"
  requests :: "string list"
  slept :: "Duration list"
  closed_bodies :: "Body list"

abbreviation StatusOK :: int where "StatusOK \<equiv> 200"
abbreviation StatusInternalServerError :: int where "StatusInternalServerError \<equiv> 500"
abbreviation StatusBadGateway :: int where "StatusBadGateway \<equiv> 502"
abbreviation StatusServiceUnavailable :: int where "StatusServiceUnavailable \<equiv> 503"
abbreviation StatusGatewayTimeout :: int where "StatusGatewayTimeout \<equiv> 504"

abbreviation Second :: Duration where "Second \<equiv> 1000000000"

definition time_Sleep :: "Duration \<Rightarrow> World \<Rightarrow> World" where
  "time_Sleep d world = world\<lparr>slept := slept world @ [d]\<rparr>"

definition Body_Close :: "Body \<Rightarrow> World \<Rightarrow> error option \<times> World" where
  "Body_Close body world =
     (map_option OtherError (close_error body),
      world\<lparr>closed_bodies := closed_bodies world @ [body]\<rparr>)"

fun ReadCloser_Close :: "ReadCloser \<Rightarrow> World \<Rightarrow> error option \<times> World" where
  "ReadCloser_Close (NewReadCloser body) world = Body_Close body world"

definition waitForRetry :: "EventSource \<Rightarrow> World \<Rightarrow> World" where
  "waitForRetry source world =
     (if retryInterval source \<noteq> 0 then time_Sleep (retryInterval source) world
      else if DefaultRetryInterval source \<noteq> 0 then time_Sleep (DefaultRetryInterval source) world
      else time_Sleep Second world)"

definition Close :: "EventSource \<Rightarrow> World \<Rightarrow> error option \<times> EventSource \<times> World" where
  "Close source world =
     (let source1 = source\<lparr>closed := True\<rparr>
      in case currentReadCloser source1 of
           None \<Rightarrow> (None, source1\<lparr>currentReadCloser := None\<rparr>, world)
         | Some rc \<Rightarrow>
             (case ReadCloser_Close rc world of
                (Some err, world1) \<Rightarrow> (Some err, source1\<lparr>currentReadCloser := None\<rparr>, world1)
              | (None, world1) \<Rightarrow> (None, source1\<lparr>currentReadCloser := None\<rparr>, world1)))"

text \<open>The loop of \<open>Connect\<close>: each round makes one request.\<close>

function Connect_loop :: "EventSource \<Rightarrow> World \<Rightarrow> (error option \<times> EventSource \<times> World) option" where
  "Connect_loop source world =
     (case transport world of
        [] \<Rightarrow> None
      | answer # answers \<Rightarrow>
          (let world1 = world\<lparr>transport := answers,
                              requests := requests world @ [lastEventID source]\<rparr>
           in case answer of
                Inl err \<Rightarrow> Connect_loop source (waitForRetry source world1)
              | Inr res \<Rightarrow>
                  if StatusCode res = StatusOK then
                    Some (None,
                          source\<lparr>currentReadCloser := Some (NewReadCloser (ResponseBody res)),
                                 closed := False\<rparr>,
                          world1)
                  else if StatusCode res = StatusInternalServerError
                        \<or> StatusCode res = StatusBadGateway
                        \<or> StatusCode res = StatusServiceUnavailable
                        \<or> StatusCode res = StatusGatewayTimeout then
                    Connect_loop source (waitForRetry source (snd (Body_Close (ResponseBody res) world1)))
                  else
                    Some (Some (BadResponseError res), source,
                          snd (Body_Close (ResponseBody res) world1))))"
  by pat_completeness auto
termination
  by (relation "measure (\<lambda>(source, world). length (transport world))")
     (auto simp: waitForRetry_def time_Sleep_def Body_Close_def)

declare Connect_loop.simps [simp del]

definition Connect :: "EventSource \<Rightarrow> World \<Rightarrow> (error option \<times> EventSource \<times> World) option" where
  "Connect source world =
     (if currentReadCloser source \<noteq> None then Some (None, source, world)
      else Connect_loop source world)"

text \<open>
  The loop of \<open>EventSource.Next\<close>. The call \<open>source.currentReadCloser.Next()\<close>
  reads the field again after \<open>Connect\<close>; on a nil pointer it panics.
\<close>

function EventSource_Next_loop ::
  "EventSource \<Rightarrow> World \<Rightarrow> ((error + Event) \<times> EventSource \<times> World) option" where
  "EventSource_Next_loop source world =
     (case Connect source world of
        None \<Rightarrow> None
      | Some (Some err, source1, world1) \<Rightarrow> Some (Inl err, source1, world1)
      | Some (None, source1, world1) \<Rightarrow>
          (case currentReadCloser source1 of
             None \<Rightarrow> Some (Inl NilPointerPanic, source1, world1)
           | Some rc \<Rightarrow>
               (case ReadCloser_Next rc of
                  None \<Rightarrow> None
                | Some (Inr event, rc1) \<Rightarrow>
                    (let source2 = source1\<lparr>currentReadCloser := Some rc1\<rparr>;
                         source3 = source2\<lparr>lastEventID := ID event\<rparr>;
                         source4 = (if Retry event \<noteq> 0
                                    then source3\<lparr>retryInterval := Retry event\<rparr> else source3)
                     in Some (Inr event, source4, world1))
                | Some (Inl err, rc1) \<Rightarrow>
                    (let source2 = source1\<lparr>currentReadCloser := Some rc1\<rparr>
                     in if err = EOF then
                          (case Close source2 world1 of
                             (_, source3, world3) \<Rightarrow> Some (Inl err, source3, world3))
                        else if closed source2 then
                          Some (Inl ErrReadFromClosedSource, source2, world1)
                        else
                          (let source3 = source2\<lparr>currentReadCloser := None\<rparr>
                           in EventSource_Next_loop source3 (waitForRetry source3 world1))))))"
  by pat_completeness auto
termination
proof -
  have loop: "length (transport world1) < length (transport world)"
    if "Connect_loop source world = Some (r, source1, world1)" for source world r source1 world1
    using that
  proof (induction source world rule: Connect_loop.induct)
    case (1 source world)
    show ?case
      using "1.prems" "1.IH"
      by (subst (asm) Connect_loop.simps)
         (fastforce split: list.splits sum.splits if_splits
            simp: Let_def Body_Close_def waitForRetry_def time_Sleep_def)
  qed
  have conn: "length (transport world1) \<le> length (transport world)
       \<and> (currentReadCloser source = None \<longrightarrow> length (transport world1) < length (transport world))"
    if "Connect source world = Some (r, source1, world1)" for source world r source1 world1
    using that loop[of source world r source1 world1]
    by (auto simp: Connect_def split: if_splits)
  show ?thesis
    apply (relation "measure (\<lambda>(source, world).
             2 * length (transport world) + (if currentReadCloser source \<noteq> None then 1 else 0))")
    apply simp
    apply (auto dest!: conn simp: waitForRetry_def time_Sleep_def)
    done
qed

declare EventSource_Next_loop.simps [simp del]

definition EventSource_Next ::
  "EventSource \<Rightarrow> World \<Rightarrow> ((error + Event) \<times> EventSource \<times> World) option" where
  "EventSource_Next source world =
     (if closed source then Some (Inl ErrReadFromClosedSource, source, world)
      else EventSource_Next_loop source world)"

text \<open>\<open>n\<close> successive calls of \<open>EventSource.Next\<close> on one session: the results, in order.\<close>

fun Next_calls ::
  "nat \<Rightarrow> EventSource \<Rightarrow> World \<Rightarrow> ((error + Event) list \<times> EventSource \<times> World) option" where
  "Next_calls 0 source world = Some ([], source, world)"
| "Next_calls (Suc n) source world =
     (case EventSource_Next source world of
        None \<Rightarrow> None
      | Some (res, source1, world1) \<Rightarrow>
          (case Next_calls n source1 world1 of
             None \<Rightarrow> None
           | Some (ress, source2, world2) \<Rightarrow> Some (res # ress, source2, world2)))"

section \<open>Notions used to state the properties\<close>

text \<open>
  What one round of the loop of \<open>Reader.Next\<close> does with a line that is not blank:
  the field name and the value it reads from the line, and the effect on the event
  under construction and on \<open>idPresent\<close>.
\<close>

definition line_field :: "string \<Rightarrow> string" where
  "line_field line = SplitN2 line ! 0"

definition line_value :: "string \<Rightarrow> string" where
  "line_value line =
     (let segments = SplitN2 line;
          value0 = (if length segments = 1 then [] else segments ! 1)
      in if length value0 > 0 \<and> value0 ! 0 = CHR '' '' then drop 1 value0 else value0)"

definition accumulate :: "Event \<times> bool \<Rightarrow> string \<Rightarrow> Event \<times> bool" where
  "accumulate acc line =
     (let event = fst acc; idPresent = snd acc
      in if line ! 0 = CHR '':'' then acc
         else if line_field line = ''id'' then (event\<lparr>ID := line_value line\<rparr>, True)
         else if line_field line = ''event'' then (event\<lparr>Name := line_value line\<rparr>, idPresent)
         else if line_field line = ''data'' then
           (event\<lparr>Data := Data event @ line_value line @ [LF]\<rparr>, idPresent)
         else acc)"

text \<open>Lines on the wire, each ended by a line feed; a block is ended by a blank line.\<close>

definition wire_lines :: "string list \<Rightarrow> string" where
  "wire_lines ls = concat (map (\<lambda>l. l @ [LF]) ls)"

definition block_wire :: "string list \<Rightarrow> string" where
  "block_wire block = wire_lines block @ [LF]"

text \<open>The data line \<open>Encode\<close> and \<open>Write\<close> produce for a fragment.\<close>

definition data_line :: "string \<Rightarrow> string" where
  "data_line f = (if length f = 0 then ''data'' else ''data: '' @ f)"

text \<open>
  The block of an event: lines that are not blank and hold no line feed, one of
  them at least a data line.
\<close>

definition event_block :: "string list \<Rightarrow> bool" where
  "event_block block =
     ((\<forall>l \<in> set block. l \<noteq> [] \<and> LF \<notin> set l) \<and> (\<exists>l \<in> set block. line_field l = ''data''))"

text \<open>
  The id rule in the spec's words: the explicit id of a block is the value of its
  (last) id line, if it has one; an event is dispatched with the explicit id of its
  block, and otherwise with the id remembered from the events before it.
\<close>

definition block_id :: "string list \<Rightarrow> string option" where
  "block_id block =
     (let ids = filter (\<lambda>l. line_field l = ''id'') block
      in if ids = [] then None else Some (line_value (last ids)))"

definition effective_id :: "string \<Rightarrow> string list \<Rightarrow> string" where
  "effective_id remembered block =
     (case block_id block of None \<Rightarrow> remembered | Some i \<Rightarrow> i)"

fun sticky_ids :: "string \<Rightarrow> string list list \<Rightarrow> string list" where
  "sticky_ids remembered [] = []"
| "sticky_ids remembered (block # blocks) =
     effective_id remembered block # sticky_ids (effective_id remembered block) blocks"

definition dispatched_id :: "error + Event \<Rightarrow> string option" where
  "dispatched_id res = (case res of Inl e \<Rightarrow> None | Inr event \<Rightarrow> Some (ID event))"

text \<open>
  What a block gives the event dispatched for it: the values of its data lines, in
  order, and the value of its last event line (empty if it has none). The lines of
  a block are not blank and hold no line feed.
\<close>

definition data_values :: "string list \<Rightarrow> string list" where
  "data_values block = map line_value (filter (\<lambda>l. line_field l = ''data'') block)"

definition block_name :: "string list \<Rightarrow> string" where
  "block_name block =
     (let names = filter (\<lambda>l. line_field l = ''event'') block
      in if names = [] then [] else line_value (last names))"

definition block_lines :: "string list \<Rightarrow> bool" where
  "block_lines block = (\<forall>l \<in> set block. l \<noteq> [] \<and> LF \<notin> set l)"

text \<open>
  The answers after which \<open>Connect\<close> tries again: a transport error, or a response
  with one of the four server-error statuses; and the body \<open>Connect\<close> closes for
  such an answer.
\<close>

definition retryable :: "nat + Response \<Rightarrow> bool" where
  "retryable answer =
     (case answer of
        Inl err \<Rightarrow> True
      | Inr res \<Rightarrow> StatusCode res \<in> {StatusInternalServerError, StatusBadGateway,
                                       StatusServiceUnavailable, StatusGatewayTimeout})"

definition bodies_closed :: "nat + Response \<Rightarrow> Body list" where
  "bodies_closed answer = (case answer of Inl err \<Rightarrow> [] | Inr res \<Rightarrow> [ResponseBody res])"

text \<open>A destination none of whose coming writes fails.\<close>

definition never_fails :: "Writer \<Rightarrow> bool" where
  "never_fails destination = (\<forall>outcome \<in> set (outcomes destination). outcome = None)"

text \<open>
  The backoff policy in the spec's words: the interval of a wait is the retry
  directive held by the session if it holds one, otherwise the configured default
  if there is one, otherwise one second.
\<close>

definition backoff_interval :: "EventSource \<Rightarrow> Duration" where
  "backoff_interval source =
     (if retryInterval source \<noteq> 0 then retryInterval source
      else if DefaultRetryInterval source \<noteq> 0 then DefaultRetryInterval source
      else Second)"

text \<open>
  The retry directive a session holds after a run of calls of \<open>Next\<close>: that of the
  last event returned with a retry interval that is not zero, and the one held
  before the run if there was no such event.
\<close>

fun last_directive :: "Duration \<Rightarrow> (error + Event) list \<Rightarrow> Duration" where
  "last_directive held [] = held"
| "last_directive held (Inl err # ress) = last_directive held ress"
| "last_directive held (Inr event # ress) =
     last_directive (if Retry event \<noteq> 0 then Retry event else held) ress"

text \<open>The invariant of the session state: a stream handle is held only while not closed.\<close>

definition stream_only_while_open :: "EventSource \<Rightarrow> bool" where
  "stream_only_while_open source = (currentReadCloser source \<noteq> None \<longrightarrow> \<not> closed source)"

text \<open>
  The session of the tests of event\_source.go before any call (a default retry
  interval of 100 milliseconds), a response with the status OK whose body yields
  the given outcomes, and an environment with the given answers and nothing
  recorded yet.
\<close>

definition test_source :: EventSource where
  "test_source = \<lparr>DefaultRetryInterval = 100000000, currentReadCloser = None, lastEventID = [],
                   retryInterval = 0, closed = False\<rparr>"

definition stream_response :: "read_outcome list \<Rightarrow> Response" where
  "stream_response script =
     \<lparr>StatusCode = StatusOK, ResponseBody = \<lparr>incoming = script, close_error = None\<rparr>\<rparr>"

definition test_world :: "(nat + Response) list \<Rightarrow> World" where
  "test_world answers = \<lparr>transport = answers, requests = [], slept = [], closed_bodies = []\<rparr>"

section \<open>The parser reads its input line by line\<close>

lemma ReadString_line:
  "d \<notin> set l \<Longrightarrow> ReadString (l @ d # rest) d = Some (l @ [d], rest)"
  by (induction l) auto

lemma Reader_Next_loop_line:
  assumes "LF \<notin> set l" and "l \<noteq> []" and "buf r = l @ LF # rest"
  shows "Reader_Next_loop ev idp r =
         Reader_Next_loop (fst (accumulate (ev, idp) l)) (snd (accumulate (ev, idp) l)) (r\<lparr>buf := rest\<rparr>)"
  using assms
  by (subst Reader_Next_loop.simps)
     (simp add: ReadString_line Let_def accumulate_def line_field_def line_value_def)

lemma Reader_Next_loop_lines:
  assumes "\<forall>l \<in> set ls. l \<noteq> [] \<and> LF \<notin> set l" and "buf r = wire_lines ls @ rest"
  shows "Reader_Next_loop ev idp r =
         Reader_Next_loop (fst (foldl accumulate (ev, idp) ls)) (snd (foldl accumulate (ev, idp) ls))
           (r\<lparr>buf := rest\<rparr>)"
  using assms
proof (induction ls arbitrary: ev idp r)
  case Nil
  then have "r\<lparr>buf := rest\<rparr> = r" by (simp add: wire_lines_def)
  then show ?case by simp
next
  case (Cons l ls)
  have b: "buf r = l @ LF # (wire_lines ls @ rest)"
    using Cons.prems(2) by (simp add: wire_lines_def)
  have "Reader_Next_loop ev idp r =
        Reader_Next_loop (fst (accumulate (ev, idp) l)) (snd (accumulate (ev, idp) l))
          (r\<lparr>buf := wire_lines ls @ rest\<rparr>)"
    using Cons.prems(1) b by (intro Reader_Next_loop_line) auto
  also have "\<dots> = Reader_Next_loop (fst (foldl accumulate (accumulate (ev, idp) l) ls))
                     (snd (foldl accumulate (accumulate (ev, idp) l) ls))
                     (r\<lparr>buf := wire_lines ls @ rest, buf := rest\<rparr>)"
    using Cons.prems(1) by (subst Cons.IH) auto
  finally show ?case by simp
qed

lemma Reader_Next_loop_blank:
  assumes "buf r = LF # rest"
  shows "Reader_Next_loop ev idp r =
         (if Data ev = [] then Reader_Next_loop ev idp (r\<lparr>buf := rest\<rparr>)
          else (Inr (ev\<lparr>Data := butlast (Data ev)\<rparr>),
                if idp then r\<lparr>buf := rest, lastID := ID ev\<rparr> else r\<lparr>buf := rest\<rparr>))"
  using assms
  by (subst Reader_Next_loop.simps) (simp add: Let_def butlast_conv_take)

lemma field_not_comment:
  "l \<noteq> [] \<Longrightarrow> line_field l \<noteq> [] \<Longrightarrow> l ! 0 \<noteq> CHR '':''"
  by (cases l) (auto simp: line_field_def SplitN2_def)

lemma accumulate_snoc_ID:
  assumes "l \<noteq> []"
  shows "ID (fst (accumulate acc l)) = (if line_field l = ''id'' then line_value l else ID (fst acc))"
    and "snd (accumulate acc l) = (snd acc \<or> line_field l = ''id'')"
  using assms field_not_comment[of l]
  by (auto simp: accumulate_def Let_def)

lemma block_id_snoc:
  "block_id (ls @ [l]) = (if line_field l = ''id'' then Some (line_value l) else block_id ls)"
  by (simp add: block_id_def Let_def)

lemma fold_ID:
  assumes "\<forall>l \<in> set ls. l \<noteq> []"
  shows "ID (fst (foldl accumulate acc ls)) = (case block_id ls of None \<Rightarrow> ID (fst acc) | Some i \<Rightarrow> i)
       \<and> snd (foldl accumulate acc ls) = (snd acc \<or> block_id ls \<noteq> None)"
  using assms
proof (induction ls rule: rev_induct)
  case Nil
  then show ?case by (simp add: block_id_def)
next
  case (snoc l ls)
  then show ?case
    by (simp add: accumulate_snoc_ID block_id_snoc)
qed

lemma accumulate_Data_mono:
  "Data (fst acc) \<noteq> [] \<Longrightarrow> Data (fst (accumulate acc l)) \<noteq> []"
  by (auto simp: accumulate_def Let_def)

lemma fold_Data_mono:
  "Data (fst acc) \<noteq> [] \<Longrightarrow> Data (fst (foldl accumulate acc ls)) \<noteq> []"
  by (induction ls arbitrary: acc) (auto simp: accumulate_Data_mono)

lemma accumulate_data_line:
  "l \<noteq> [] \<Longrightarrow> line_field l = ''data'' \<Longrightarrow> Data (fst (accumulate acc l)) \<noteq> []"
  using field_not_comment[of l] by (auto simp: accumulate_def Let_def)

lemma fold_Data_nonempty:
  assumes "\<forall>l \<in> set ls. l \<noteq> []" and "\<exists>l \<in> set ls. line_field l = ''data''"
  shows "Data (fst (foldl accumulate acc ls)) \<noteq> []"
  using assms
proof (induction ls arbitrary: acc)
  case Nil
  then show ?case by simp
next
  case (Cons l ls)
  show ?case
  proof (cases "line_field l = ''data''")
    case True
    then have "Data (fst (accumulate acc l)) \<noteq> []"
      using Cons.prems(1) by (intro accumulate_data_line) auto
    then show ?thesis by (simp add: fold_Data_mono)
  next
    case False
    then show ?thesis using Cons by auto
  qed
qed

lemma Next_block:
  assumes "event_block block" and "buf r = block_wire block @ rest"
  shows "\<exists>ev. Reader_Next r = (Inr ev, r\<lparr>buf := rest, lastID := effective_id (lastID r) block\<rparr>)
            \<and> ID ev = effective_id (lastID r) block"
proof -
  let ?acc = "foldl accumulate (zero_Event\<lparr>ID := lastID r\<rparr>, False) block"
  have nonempty: "\<forall>l \<in> set block. l \<noteq> []"
    using assms(1) by (simp add: event_block_def)
  have b: "buf r = wire_lines block @ LF # rest"
    using assms(2) by (simp add: block_wire_def)
  have "Reader_Next r = Reader_Next_loop (fst ?acc) (snd ?acc) (r\<lparr>buf := LF # rest\<rparr>)"
    unfolding Reader_Next_def using assms(1) b by (intro Reader_Next_loop_lines) (auto simp: event_block_def)
  also have "\<dots> = (Inr ((fst ?acc)\<lparr>Data := butlast (Data (fst ?acc))\<rparr>),
                   if snd ?acc then r\<lparr>buf := rest, lastID := ID (fst ?acc)\<rparr> else r\<lparr>buf := rest\<rparr>)"
    using fold_Data_nonempty[of block] assms(1)
    by (subst Reader_Next_loop_blank[where rest = rest]) (auto simp: event_block_def)
  finally have n: "Reader_Next r = (Inr ((fst ?acc)\<lparr>Data := butlast (Data (fst ?acc))\<rparr>),
                   if snd ?acc then r\<lparr>buf := rest, lastID := ID (fst ?acc)\<rparr> else r\<lparr>buf := rest\<rparr>)" .
  have i: "ID (fst ?acc) = effective_id (lastID r) block"
    and p: "snd ?acc = (block_id block \<noteq> None)"
    using fold_ID[OF nonempty, of "(zero_Event\<lparr>ID := lastID r\<rparr>, False)"]
    by (simp_all add: effective_id_def split: option.splits)
  have e: "\<not> snd ?acc \<Longrightarrow> effective_id (lastID r) block = lastID r"
    using p by (simp add: effective_id_def)
  show ?thesis
  proof (cases "snd ?acc")
    case True
    then show ?thesis using n i by simp
  next
    case False
    then have "r\<lparr>buf := rest, lastID := effective_id (lastID r) block\<rparr> = r\<lparr>buf := rest\<rparr>"
      using e by simp
    then show ?thesis using n i False by simp
  qed
qed

lemma Next_times_blocks:
  assumes "\<forall>block \<in> set blocks. event_block block"
    and "buf r = concat (map block_wire blocks) @ rest"
  shows "map dispatched_id (fst (Next_times (length blocks) r)) = map Some (sticky_ids (lastID r) blocks)
       \<and> lastID (snd (Next_times (length blocks) r)) = last (lastID r # sticky_ids (lastID r) blocks)
       \<and> buf (snd (Next_times (length blocks) r)) = rest"
  using assms
proof (induction blocks arbitrary: r)
  case Nil
  then show ?case by simp
next
  case (Cons block blocks)
  let ?r1 = "r\<lparr>buf := concat (map block_wire blocks) @ rest, lastID := effective_id (lastID r) block\<rparr>"
  obtain ev where n: "Reader_Next r = (Inr ev, ?r1)" and i: "ID ev = effective_id (lastID r) block"
    using Next_block[of block r "concat (map block_wire blocks) @ rest"] Cons.prems by auto
  have ih: "map dispatched_id (fst (Next_times (length blocks) ?r1)) = map Some (sticky_ids (lastID ?r1) blocks)
       \<and> lastID (snd (Next_times (length blocks) ?r1)) = last (lastID ?r1 # sticky_ids (lastID ?r1) blocks)
       \<and> buf (snd (Next_times (length blocks) ?r1)) = rest"
    using Cons.prems by (intro Cons.IH) auto
  obtain ress r2 where t: "Next_times (length blocks) ?r1 = (ress, r2)"
    by (cases "Next_times (length blocks) ?r1")
  have d: "dispatched_id (Inr ev) = Some (effective_id (lastID r) block)"
    using i by (simp add: dispatched_id_def)
  have "Next_times (length (block # blocks)) r = (Inr ev # ress, r2)"
    using n t by simp
  then show ?case
    using ih t d by simp
qed

lemma bytes_Split_nonempty: "bytes_Split d sep \<noteq> []"
  by (induction d) auto

lemma bytes_Split_no_sep: "\<forall>f \<in> set (bytes_Split d sep). sep \<notin> set f"
proof (induction d)
  case Nil
  then show ?case by simp
next
  case (Cons c d)
  obtain f fs where s: "bytes_Split d sep = f # fs"
    using bytes_Split_nonempty[of d sep] by (cases "bytes_Split d sep") auto
  then show ?case using Cons by auto
qed

lemma bytes_Split_join: "concat (map (\<lambda>f. f @ [sep]) (bytes_Split d sep)) = d @ [sep]"
proof (induction d)
  case Nil
  then show ?case by simp
next
  case (Cons c d)
  obtain f fs where s: "bytes_Split d sep = f # fs"
    using bytes_Split_nonempty[of d sep] by (cases "bytes_Split d sep") auto
  then show ?case using Cons by auto
qed

lemma bytes_Split_length: "length (bytes_Split d sep) = Suc (count_list d sep)"
proof (induction d)
  case Nil
  then show ?case by simp
next
  case (Cons c d)
  obtain f fs where s: "bytes_Split d sep = f # fs"
    using bytes_Split_nonempty[of d sep] by (cases "bytes_Split d sep") auto
  then show ?case using Cons by auto
qed

lemma foldl_encode_line:
  "foldl encode_line enc fs = enc @ wire_lines (map data_line fs)"
  by (induction fs arbitrary: enc) (auto simp: encode_line_def data_line_def wire_lines_def)

lemma Encode_lines:
  "Encode e = block_wire ((''id: '' @ ID e) # (''event: '' @ Name e) # map data_line (bytes_Split (Data e) LF))"
  by (simp add: Encode_def Let_def foldl_encode_line block_wire_def wire_lines_def)

lemma data_line_parse: "line_field (data_line f) = ''data''" "line_value (data_line f) = f"
  by (simp_all add: data_line_def line_field_def line_value_def SplitN2_def Let_def)

lemma accumulate_data_line2:
  "accumulate (ev, idp) (data_line f) = (ev\<lparr>Data := Data ev @ f @ [LF]\<rparr>, idp)"
  using data_line_parse[of f]
  by (simp add: accumulate_def Let_def) (simp add: data_line_def)

lemma fold_data_lines:
  "foldl accumulate (ev, idp) (map data_line fs) =
     (ev\<lparr>Data := Data ev @ concat (map (\<lambda>f. f @ [LF]) fs)\<rparr>, idp)"
  by (induction fs arbitrary: ev) (simp_all add: accumulate_data_line2)

lemma fold_event_lines:
  assumes "a \<noteq> []" and "line_field a = ''id''" and "line_value a = i"
    and "b \<noteq> []" and "line_field b = ''event''" and "line_value b = n"
  shows "foldl accumulate (zero_Event\<lparr>ID := l\<rparr>, False) (a # b # map data_line fs) =
         (\<lparr>ID = i, Name = n, Data = concat (map (\<lambda>f. f @ [LF]) fs), Retry = 0\<rparr>, True)"
proof -
  have 1: "accumulate (zero_Event\<lparr>ID := l\<rparr>, False) a = (zero_Event\<lparr>ID := i\<rparr>, True)"
    using assms(1-3) field_not_comment[of a] by (simp add: accumulate_def Let_def)
  have 2: "accumulate (zero_Event\<lparr>ID := i\<rparr>, True) b = (zero_Event\<lparr>ID := i, Name := n\<rparr>, True)"
    using assms(4-6) field_not_comment[of b] by (simp add: accumulate_def Let_def)
  show ?thesis
    by (simp add: 1 2 fold_data_lines) (simp add: zero_Event_def)
qed

lemma Next_Encode:
  assumes "LF \<notin> set (ID e)" and "LF \<notin> set (Name e)" and "buf r = Encode e @ rest"
  shows "Reader_Next r = (Inr (e\<lparr>Retry := 0\<rparr>), r\<lparr>buf := rest, lastID := ID e\<rparr>)"
proof -
  define a where "a = ''id: '' @ ID e"
  define b where "b = ''event: '' @ Name e"
  define ls where "ls = a # b # map data_line (bytes_Split (Data e) LF)"
  define acc where "acc = foldl accumulate (zero_Event\<lparr>ID := lastID r\<rparr>, False) ls"
  have wf: "\<forall>l \<in> set ls. l \<noteq> [] \<and> LF \<notin> set l"
    using assms(1,2) bytes_Split_no_sep[of "Data e" LF]
    by (auto simp: data_line_def ls_def a_def b_def)
  have buf: "buf r = wire_lines ls @ LF # rest"
    using assms(3) by (simp add: Encode_lines block_wire_def ls_def a_def b_def)
  have acc: "acc = (\<lparr>ID = ID e, Name = Name e, Data = Data e @ [LF], Retry = 0\<rparr>, True)"
    unfolding acc_def ls_def
    by (subst fold_event_lines[where i = "ID e" and n = "Name e"])
       (simp_all add: a_def b_def line_field_def line_value_def SplitN2_def bytes_Split_join)
  have "Reader_Next r = Reader_Next_loop (fst acc) (snd acc) (r\<lparr>buf := LF # rest\<rparr>)"
    unfolding Reader_Next_def acc_def using wf buf by (intro Reader_Next_loop_lines)
  also have "\<dots> = (Inr \<lparr>ID = ID e, Name = Name e, Data = Data e, Retry = 0\<rparr>,
                   r\<lparr>buf := rest, lastID := ID e\<rparr>)"
    by (subst Reader_Next_loop_blank[where rest = rest]) (simp_all add: acc)
  finally show ?thesis by simp
qed

lemma accumulate_Name_Data:
  assumes "l \<noteq> []"
  shows "Name (fst (accumulate acc l)) =
           (if line_field l = ''event'' then line_value l else Name (fst acc))"
    and "Data (fst (accumulate acc l)) =
           (if line_field l = ''data'' then Data (fst acc) @ line_value l @ [LF] else Data (fst acc))"
    and "Retry (fst (accumulate acc l)) = Retry (fst acc)"
  using assms field_not_comment[of l]
  by (auto simp: accumulate_def Let_def)

lemma fold_Name_Data:
  assumes "\<forall>l \<in> set ls. l \<noteq> []"
  shows "Name (fst (foldl accumulate acc ls)) =
           (if filter (\<lambda>l. line_field l = ''event'') ls = [] then Name (fst acc) else block_name ls)
       \<and> Data (fst (foldl accumulate acc ls)) =
           Data (fst acc) @ concat (map (\<lambda>v. v @ [LF]) (data_values ls))
       \<and> Retry (fst (foldl accumulate acc ls)) = Retry (fst acc)"
  using assms
proof (induction ls rule: rev_induct)
  case Nil
  then show ?case by (simp add: data_values_def)
next
  case (snoc l ls)
  then show ?case
    by (simp add: accumulate_Name_Data data_values_def block_name_def Let_def)
qed

lemma Next_block_event:
  assumes wf: "\<forall>l \<in> set block. l \<noteq> [] \<and> LF \<notin> set l"
    and b: "buf r = block_wire block @ rest"
    and d: "data_values block \<noteq> []"
  shows "Reader_Next r =
     (Inr \<lparr>ID = effective_id (lastID r) block, Name = block_name block,
           Data = butlast (concat (map (\<lambda>v. v @ [LF]) (data_values block))), Retry = 0\<rparr>,
      r\<lparr>buf := rest, lastID := effective_id (lastID r) block\<rparr>)"
proof -
  define acc where "acc = foldl accumulate (zero_Event\<lparr>ID := lastID r\<rparr>, False) block"
  have nonempty: "\<forall>l \<in> set block. l \<noteq> []"
    using wf by simp
  have bw: "buf r = wire_lines block @ LF # rest"
    using b by (simp add: block_wire_def)
  have i: "ID (fst acc) = effective_id (lastID r) block"
    and p: "snd acc = (block_id block \<noteq> None)"
    using fold_ID[OF nonempty, of "(zero_Event\<lparr>ID := lastID r\<rparr>, False)"]
    by (simp_all add: acc_def effective_id_def split: option.splits)
  have n: "Name (fst acc) = block_name block"
    and da: "Data (fst acc) = concat (map (\<lambda>v. v @ [LF]) (data_values block))"
    and re: "Retry (fst acc) = 0"
    using fold_Name_Data[OF nonempty, of "(zero_Event\<lparr>ID := lastID r\<rparr>, False)"]
    by (simp_all add: acc_def block_name_def Let_def zero_Event_def)
  have ne: "Data (fst acc) \<noteq> []"
    using d da by (cases "data_values block") simp_all
  have ev: "(fst acc)\<lparr>Data := butlast (Data (fst acc))\<rparr> =
        \<lparr>ID = effective_id (lastID r) block, Name = block_name block,
           Data = butlast (concat (map (\<lambda>v. v @ [LF]) (data_values block))), Retry = 0\<rparr>"
    using i n da re by (cases "fst acc") simp
  have e: "\<not> snd acc \<Longrightarrow> effective_id (lastID r) block = lastID r"
    using p by (simp add: effective_id_def)
  have rd: "(if snd acc then r\<lparr>buf := rest, lastID := ID (fst acc)\<rparr> else r\<lparr>buf := rest\<rparr>) =
        r\<lparr>buf := rest, lastID := effective_id (lastID r) block\<rparr>"
    using i e by (cases "snd acc") simp_all
  have "Reader_Next r = Reader_Next_loop (fst acc) (snd acc) (r\<lparr>buf := LF # rest\<rparr>)"
    unfolding Reader_Next_def acc_def using wf bw by (intro Reader_Next_loop_lines)
  also have "\<dots> = (Inr ((fst acc)\<lparr>Data := butlast (Data (fst acc))\<rparr>),
                   if snd acc then r\<lparr>buf := rest, lastID := ID (fst acc)\<rparr> else r\<lparr>buf := rest\<rparr>)"
    using ne by (subst Reader_Next_loop_blank[where rest = rest]) simp_all
  finally show ?thesis
    by (simp only: ev rd)
qed

lemma ReadString_none: "d \<notin> set s \<Longrightarrow> ReadString s d = None"
  by (induction s) auto

lemma Next_block_no_data:
  assumes wf: "\<forall>l \<in> set block. l \<noteq> [] \<and> LF \<notin> set l"
    and b: "buf r = block_wire block @ rest"
    and d: "data_values block = []"
    and e: "LF \<notin> set rest"
  shows "Reader_Next r = (Inl (source_err r), r\<lparr>buf := []\<rparr>)"
proof -
  define acc where "acc = foldl accumulate (zero_Event\<lparr>ID := lastID r\<rparr>, False) block"
  have nonempty: "\<forall>l \<in> set block. l \<noteq> []"
    using wf by simp
  have bw: "buf r = wire_lines block @ LF # rest"
    using b by (simp add: block_wire_def)
  have da: "Data (fst acc) = []"
    using fold_Name_Data[OF nonempty, of "(zero_Event\<lparr>ID := lastID r\<rparr>, False)"] d
    by (simp add: acc_def zero_Event_def)
  have "Reader_Next r = Reader_Next_loop (fst acc) (snd acc) (r\<lparr>buf := LF # rest\<rparr>)"
    unfolding Reader_Next_def acc_def using wf bw by (intro Reader_Next_loop_lines)
  also have "\<dots> = Reader_Next_loop (fst acc) (snd acc) (r\<lparr>buf := rest\<rparr>)"
    using da by (subst Reader_Next_loop_blank[where rest = rest]) simp_all
  also have "\<dots> = (Inl (source_err r), r\<lparr>buf := []\<rparr>)"
    using e by (subst Reader_Next_loop.simps) (simp add: ReadString_none)
  finally show ?thesis .
qed

section \<open>Writing succeeds or stops at the first error\<close>

lemma Fprintf_written:
  "fst (Fprintf d t) = None \<Longrightarrow> written (snd (Fprintf d t)) = written d @ t"
  by (auto simp: Fprintf_def split: list.splits option.splits)

lemma Fprintf_never_fails:
  "never_fails d \<Longrightarrow> fst (Fprintf d t) = None \<and> never_fails (snd (Fprintf d t))"
  by (auto simp: Fprintf_def never_fails_def split: list.splits option.splits)

lemma Write_lines_written:
  "fst (Write_lines fs d) = None \<Longrightarrow>
   written (snd (Write_lines fs d)) = written d @ wire_lines (map data_line fs)"
proof (induction fs arbitrary: d)
  case Nil
  then show ?case by (simp add: wire_lines_def)
next
  case (Cons f fs)
  let ?t = "data_line f @ [LF]"
  have step: "Write_lines (f # fs) d =
        (case Fprintf d ?t of (Some err, d1) \<Rightarrow> (Some err, d1) | (None, d1) \<Rightarrow> Write_lines fs d1)"
    by (simp add: data_line_def)
  obtain r d1 where p: "Fprintf d ?t = (r, d1)"
    by (cases "Fprintf d ?t")
  have r: "r = None"
    using Cons.prems p unfolding step by (cases r) auto
  have w: "Write_lines (f # fs) d = Write_lines fs d1"
    unfolding step using p r by simp
  have "written d1 = written d @ ?t"
    using Fprintf_written[of d ?t] p r by simp
  moreover have "written (snd (Write_lines fs d1)) = written d1 @ wire_lines (map data_line fs)"
    using Cons.prems w by (intro Cons.IH) simp
  ultimately show ?case
    unfolding w by (simp add: wire_lines_def)
qed

lemma Write_lines_never_fails:
  "never_fails d \<Longrightarrow> fst (Write_lines fs d) = None \<and> never_fails (snd (Write_lines fs d))"
proof (induction fs arbitrary: d)
  case Nil
  then show ?case by simp
next
  case (Cons f fs)
  let ?t = "data_line f @ [LF]"
  have step: "Write_lines (f # fs) d =
        (case Fprintf d ?t of (Some err, d1) \<Rightarrow> (Some err, d1) | (None, d1) \<Rightarrow> Write_lines fs d1)"
    by (simp add: data_line_def)
  obtain d1 where p: "Fprintf d ?t = (None, d1)" and n: "never_fails d1"
    using Fprintf_never_fails[OF Cons.prems, of ?t] by (cases "Fprintf d ?t") auto
  show ?case
    unfolding step using p Cons.IH[OF n] by simp
qed

lemma Write_written:
  assumes "fst (Write e d) = None"
  shows "written (snd (Write e d)) = written d @ Encode e"
proof -
  let ?t1 = "''id: '' @ ID e @ [LF]" and ?t2 = "''event: '' @ Name e @ [LF]"
  obtain r1 d1 where p1: "Fprintf d ?t1 = (r1, d1)" by (cases "Fprintf d ?t1")
  obtain r2 d2 where p2: "Fprintf d1 ?t2 = (r2, d2)" by (cases "Fprintf d1 ?t2")
  obtain r3 d3 where p3: "Write_lines (bytes_Split (Data e) LF) d2 = (r3, d3)"
    by (cases "Write_lines (bytes_Split (Data e) LF) d2")
  have r1: "r1 = None"
    using assms p1 by (cases r1) (auto simp: Write_def)
  have r2: "r2 = None"
    using assms p1 p2 r1 by (cases r2) (auto simp: Write_def)
  have r3: "r3 = None"
    using assms p1 p2 p3 r1 r2 by (cases r3) (auto simp: Write_def)
  have w: "Write e d = Fprintf d3 [LF]"
    using p1 p2 p3 r1 r2 r3 by (simp add: Write_def)
  have "written d1 = written d @ ?t1"
    using Fprintf_written[of d ?t1] p1 r1 by simp
  moreover have "written d2 = written d1 @ ?t2"
    using Fprintf_written[of d1 ?t2] p2 r2 by simp
  moreover have "written d3 = written d2 @ wire_lines (map data_line (bytes_Split (Data e) LF))"
    using Write_lines_written[of "bytes_Split (Data e) LF" d2] p3 r3 by simp
  moreover have "written (snd (Write e d)) = written d3 @ [LF]"
    using assms Fprintf_written[of d3 "[LF]"] unfolding w by simp
  ultimately show ?thesis
    by (simp add: Encode_lines block_wire_def wire_lines_def)
qed

lemma Write_never_fails:
  assumes "never_fails d"
  shows "fst (Write e d) = None"
proof -
  let ?t1 = "''id: '' @ ID e @ [LF]" and ?t2 = "''event: '' @ Name e @ [LF]"
  obtain d1 where p1: "Fprintf d ?t1 = (None, d1)" and n1: "never_fails d1"
    using Fprintf_never_fails[OF assms, of ?t1] by (cases "Fprintf d ?t1") auto
  obtain d2 where p2: "Fprintf d1 ?t2 = (None, d2)" and n2: "never_fails d2"
    using Fprintf_never_fails[OF n1, of ?t2] by (cases "Fprintf d1 ?t2") auto
  obtain d3 where p3: "Write_lines (bytes_Split (Data e) LF) d2 = (None, d3)" and n3: "never_fails d3"
    using Write_lines_never_fails[OF n2, of "bytes_Split (Data e) LF"]
    by (cases "Write_lines (bytes_Split (Data e) LF) d2") auto
  show ?thesis
    using p1 p2 p3 Fprintf_never_fails[OF n3, of "[LF]"] by (simp add: Write_def)
qed

section \<open>One round of connecting and reading\<close>

lemma waitForRetry_backoff:
  "waitForRetry s w = w\<lparr>slept := slept w @ [backoff_interval s]\<rparr>"
  by (simp add: waitForRetry_def backoff_interval_def time_Sleep_def)

lemma Connect_loop_answer:
  assumes "transport w = answer # answers"
  shows "Connect_loop s w =
     (let w1 = w\<lparr>transport := answers, requests := requests w @ [lastEventID s]\<rparr>
      in case answer of
           Inl err \<Rightarrow> Connect_loop s (waitForRetry s w1)
         | Inr res \<Rightarrow>
             if StatusCode res = StatusOK then
               Some (None, s\<lparr>currentReadCloser := Some (NewReadCloser (ResponseBody res)),
                              closed := False\<rparr>, w1)
             else if StatusCode res \<in> {StatusInternalServerError, StatusBadGateway,
                                         StatusServiceUnavailable, StatusGatewayTimeout} then
               Connect_loop s (waitForRetry s (w1\<lparr>closed_bodies := closed_bodies w @ [ResponseBody res]\<rparr>))
             else
               Some (Some (BadResponseError res), s,
                     w1\<lparr>closed_bodies := closed_bodies w @ [ResponseBody res]\<rparr>))"
  using assms
  by (subst Connect_loop.simps) (simp add: Let_def Body_Close_def split: sum.splits)

lemma Connect_loop_result:
  assumes "Connect_loop s w = Some (r, s1, w1)"
  shows "((\<exists>res. r = Some (BadResponseError res) \<and> s1 = s)
          \<or> (r = None \<and> (\<exists>body. s1 = s\<lparr>currentReadCloser := Some (NewReadCloser body), closed := False\<rparr>)))
       \<and> (\<exists>k. slept w1 = slept w @ replicate k (backoff_interval s))"
  using assms
proof (induction s w rule: Connect_loop.induct)
  case (1 s w)
  show ?case
  proof (cases "transport w")
    case Nil
    then show ?thesis using "1.prems" by (subst (asm) Connect_loop.simps) simp
  next
    case (Cons answer answers)
    let ?w1 = "w\<lparr>transport := answers, requests := requests w @ [lastEventID s]\<rparr>"
    note eq = Connect_loop_answer[OF Cons, of s]
    show ?thesis
    proof (cases answer)
      case (Inl err)
      have c: "Connect_loop s (waitForRetry s ?w1) = Some (r, s1, w1)"
        using "1.prems" eq Inl by (simp add: Let_def)
      have ih: "((\<exists>res. r = Some (BadResponseError res) \<and> s1 = s)
          \<or> (r = None \<and> (\<exists>body. s1 = s\<lparr>currentReadCloser := Some (NewReadCloser body), closed := False\<rparr>)))
       \<and> (\<exists>k. slept w1 = slept (waitForRetry s ?w1) @ replicate k (backoff_interval s))"
        using "1.IH"(1)[OF Cons refl Inl c] .
      then obtain k where "slept w1 = slept w @ replicate (Suc k) (backoff_interval s)"
        by (auto simp: waitForRetry_backoff)
      then show ?thesis using ih by blast
    next
      case (Inr res)
      let ?w2 = "?w1\<lparr>closed_bodies := closed_bodies w @ [ResponseBody res]\<rparr>"
      consider (ok) "StatusCode res = StatusOK"
        | (retry) "StatusCode res \<noteq> StatusOK" "StatusCode res \<in> {StatusInternalServerError, StatusBadGateway,
                                         StatusServiceUnavailable, StatusGatewayTimeout}"
        | (bad) "StatusCode res \<noteq> StatusOK" "StatusCode res \<notin> {StatusInternalServerError, StatusBadGateway,
                                         StatusServiceUnavailable, StatusGatewayTimeout}"
        by blast
      then show ?thesis
      proof cases
        case ok
        then have "slept w1 = slept w @ replicate 0 (backoff_interval s)"
          and "r = None"
          and "s1 = s\<lparr>currentReadCloser := Some (NewReadCloser (ResponseBody res)), closed := False\<rparr>"
          using "1.prems" eq Inr by (auto simp: Let_def)
        then show ?thesis by blast
      next
        case retry
        have c: "Connect_loop s (waitForRetry s ?w2) = Some (r, s1, w1)"
          using "1.prems" eq Inr retry by (simp add: Let_def)
        have w2: "?w2 = snd (Body_Close (ResponseBody res) ?w1)"
          by (simp add: Body_Close_def)
        have r': "StatusCode res = StatusInternalServerError
                        \<or> StatusCode res = StatusBadGateway
                        \<or> StatusCode res = StatusServiceUnavailable
                        \<or> StatusCode res = StatusGatewayTimeout"
          using retry(2) by simp
        have ih: "((\<exists>res. r = Some (BadResponseError res) \<and> s1 = s)
          \<or> (r = None \<and> (\<exists>body. s1 = s\<lparr>currentReadCloser := Some (NewReadCloser body), closed := False\<rparr>)))
       \<and> (\<exists>k. slept w1 = slept (waitForRetry s ?w2) @ replicate k (backoff_interval s))"
          using "1.IH"(2)[OF Cons refl Inr retry(1) r'] c unfolding w2 by simp
        then obtain k where "slept w1 = slept w @ replicate (Suc k) (backoff_interval s)"
          by (auto simp: waitForRetry_backoff)
        then show ?thesis using ih by blast
      next
        case bad
        then have "slept w1 = slept w @ replicate 0 (backoff_interval s)"
          and "r = Some (BadResponseError res)" and "s1 = s"
          using "1.prems" eq Inr by (auto simp: Let_def)
        then show ?thesis by blast
      qed
    qed
  qed
qed

lemma Connect_result:
  assumes "Connect s w = Some (r, s1, w1)"
  shows "((currentReadCloser s \<noteq> None \<and> r = None \<and> s1 = s \<and> w1 = w)
          \<or> (currentReadCloser s = None \<and> (\<exists>res. r = Some (BadResponseError res)) \<and> s1 = s)
          \<or> (currentReadCloser s = None \<and> r = None
              \<and> (\<exists>body. s1 = s\<lparr>currentReadCloser := Some (NewReadCloser body), closed := False\<rparr>)))
       \<and> (\<exists>k. slept w1 = slept w @ replicate k (backoff_interval s))"
proof (cases "currentReadCloser s = None")
  case True
  then show ?thesis
    using assms Connect_loop_result[of s w r s1 w1] by (auto simp: Connect_def)
next
  case False
  then have "r = None" "s1 = s" "w1 = w" "slept w1 = slept w @ replicate 0 (backoff_interval s)"
    using assms by (auto simp: Connect_def)
  then show ?thesis using False by blast
qed

lemma EventSource_Next_loop_cases:
  assumes "EventSource_Next_loop s w = Some (res, s', w')"
  obtains
    (failed) err where "Connect s w = Some (Some err, s', w')" and "res = Inl err"
  | (panic) "Connect s w = Some (None, s', w')" and "currentReadCloser s' = None"
      and "res = Inl NilPointerPanic"
  | (event) s1 rc rc1 e where "Connect s w = Some (None, s1, w')"
      and "currentReadCloser s1 = Some rc" and "ReadCloser_Next rc = Some (Inr e, rc1)"
      and "res = Inr e"
      and "s' = s1\<lparr>currentReadCloser := Some rc1, lastEventID := ID e,
                      retryInterval := (if Retry e \<noteq> 0 then Retry e else retryInterval s1)\<rparr>"
  | (eof) s1 w1 rc rc1 where "Connect s w = Some (None, s1, w1)"
      and "currentReadCloser s1 = Some rc" and "ReadCloser_Next rc = Some (Inl EOF, rc1)"
      and "res = Inl EOF"
      and "(s', w') = snd (Close (s1\<lparr>currentReadCloser := Some rc1\<rparr>) w1)"
  | (closed) s1 rc rc1 err where "Connect s w = Some (None, s1, w')"
      and "currentReadCloser s1 = Some rc" and "ReadCloser_Next rc = Some (Inl err, rc1)"
      and "err \<noteq> EOF" and "closed s1" and "res = Inl ErrReadFromClosedSource"
      and "s' = s1\<lparr>currentReadCloser := Some rc1\<rparr>"
  | (again) s1 w1 rc rc1 err where "Connect s w = Some (None, s1, w1)"
      and "currentReadCloser s1 = Some rc" and "ReadCloser_Next rc = Some (Inl err, rc1)"
      and "err \<noteq> EOF" and "\<not> closed s1"
      and "EventSource_Next_loop (s1\<lparr>currentReadCloser := None\<rparr>)
             (waitForRetry (s1\<lparr>currentReadCloser := None\<rparr>) w1) = Some (res, s', w')"
proof -
  obtain r s1 w1 where c: "Connect s w = Some (r, s1, w1)"
    using assms by (subst (asm) EventSource_Next_loop.simps) (auto split: option.splits)
  show thesis
  proof (cases r)
    case (Some err)
    then show thesis
      using assms c failed by (subst (asm) EventSource_Next_loop.simps) simp
  next
    case None
    note r = None
    show thesis
    proof (cases "currentReadCloser s1")
      case None
      then show thesis
        using assms c r panic by (subst (asm) EventSource_Next_loop.simps) simp
    next
      case (Some rc)
      note h = Some
      obtain x rc1 where n: "ReadCloser_Next rc = Some (x, rc1)"
        using assms c r h by (subst (asm) EventSource_Next_loop.simps) (auto split: option.splits)
      show thesis
      proof (cases x)
        case (Inr e)
        have "s' = s1\<lparr>currentReadCloser := Some rc1, lastEventID := ID e,
                      retryInterval := (if Retry e \<noteq> 0 then Retry e else retryInterval s1)\<rparr>"
          and "res = Inr e" and "w' = w1"
          using assms c r h n Inr
          by (subst (asm) EventSource_Next_loop.simps; simp add: Let_def split: if_splits)+
        then show thesis using event c r h n Inr by simp
      next
        case (Inl err)
        show thesis
        proof (cases "err = EOF")
          case True
          then have "res = Inl EOF \<and> (s', w') = snd (Close (s1\<lparr>currentReadCloser := Some rc1\<rparr>) w1)"
            using assms c r h n Inl
            by (subst (asm) EventSource_Next_loop.simps) (auto simp: Let_def split: prod.splits)
          then show thesis using eof c r h n Inl True by simp
        next
          case False
          show thesis
          proof (cases "closed s1")
            case True
            then have "res = Inl ErrReadFromClosedSource \<and> s' = s1\<lparr>currentReadCloser := Some rc1\<rparr> \<and> w' = w1"
              using assms c r h n Inl False
              by (subst (asm) EventSource_Next_loop.simps) (auto simp: Let_def)
            then show thesis using closed[of s1 rc err rc1] c r h n Inl False True by simp
          next
            case c2: False
            then have "EventSource_Next_loop (s1\<lparr>currentReadCloser := None\<rparr>)
                (waitForRetry (s1\<lparr>currentReadCloser := None\<rparr>) w1) = Some (res, s', w')"
              using assms c r h n Inl False
              by (subst (asm) EventSource_Next_loop.simps) (auto simp: Let_def)
            then show thesis using again[of s1 w1 rc err rc1] c r h n Inl False c2 by simp
          qed
        qed
      qed
    qed
  qed
qed

lemma EventSource_Next_loop_induct [consumes 1, case_names round]:
  assumes "EventSource_Next_loop s w = Some (res, s', w')"
    and step: "\<And>s w.
       EventSource_Next_loop s w = Some (res, s', w') \<Longrightarrow>
       (\<And>s1 w1 rc rc1 err.
           Connect s w = Some (None, s1, w1) \<Longrightarrow> currentReadCloser s1 = Some rc \<Longrightarrow>
           ReadCloser_Next rc = Some (Inl err, rc1) \<Longrightarrow> err \<noteq> EOF \<Longrightarrow> \<not> closed s1 \<Longrightarrow>
           EventSource_Next_loop (s1\<lparr>currentReadCloser := None\<rparr>)
             (waitForRetry (s1\<lparr>currentReadCloser := None\<rparr>) w1) = Some (res, s', w') \<Longrightarrow>
           P (s1\<lparr>currentReadCloser := None\<rparr>) (waitForRetry (s1\<lparr>currentReadCloser := None\<rparr>) w1)) \<Longrightarrow>
       P s w"
  shows "P s w"
  using assms(1)
proof (induction s w rule: EventSource_Next_loop.induct)
  case (1 source world)
  show ?case
  proof (rule step[OF "1.prems"])
    fix s1 w1 rc rc1 err
    assume a: "Connect source world = Some (None, s1, w1)" "currentReadCloser s1 = Some rc"
      "ReadCloser_Next rc = Some (Inl err, rc1)" "err \<noteq> EOF" "\<not> closed s1"
      "EventSource_Next_loop (s1\<lparr>currentReadCloser := None\<rparr>)
             (waitForRetry (s1\<lparr>currentReadCloser := None\<rparr>) w1) = Some (res, s', w')"
    have "P (s1\<lparr>currentReadCloser := Some rc1\<rparr>\<lparr>currentReadCloser := None\<rparr>)
            (waitForRetry (s1\<lparr>currentReadCloser := Some rc1\<rparr>\<lparr>currentReadCloser := None\<rparr>) w1)"
      using a by (intro "1.IH"[OF a(1) refl refl refl a(2) a(3) refl refl refl a(4) _ refl]) simp_all
    then show "P (s1\<lparr>currentReadCloser := None\<rparr>) (waitForRetry (s1\<lparr>currentReadCloser := None\<rparr>) w1)"
      by simp
  qed
qed

lemma Connect_keeps:
  assumes "Connect s w = Some (r, s1, w1)"
  shows "retryInterval s1 = retryInterval s" and "DefaultRetryInterval s1 = DefaultRetryInterval s"
    and "lastEventID s1 = lastEventID s" and "backoff_interval s1 = backoff_interval s"
  using Connect_result[OF assms] by (auto simp: backoff_interval_def)

lemma Close_result:
  assumes "Close s w = (r, s', w')"
  shows "s' = s\<lparr>closed := True, currentReadCloser := None\<rparr>" and "slept w' = slept w"
  using assms
  by (auto simp: Close_def Let_def Body_Close_def split: option.splits prod.splits
      elim!: ReadCloser_Close.elims)

lemma replicate_backoff:
  "replicate j b @ b # replicate k b = replicate (Suc (j + k)) b"
  by (induction j) auto

lemma EventSource_Next_loop_backoff:
  assumes "EventSource_Next_loop s w = Some (res, s', w')"
  shows "(\<exists>k. slept w' = slept w @ replicate k (backoff_interval s))
       \<and> DefaultRetryInterval s' = DefaultRetryInterval s
       \<and> retryInterval s' =
           (case res of Inl err \<Rightarrow> retryInterval s
            | Inr event \<Rightarrow> if Retry event \<noteq> 0 then Retry event else retryInterval s)"
  using assms
proof (induction rule: EventSource_Next_loop_induct)
  case (round s w)
  from round(1) show ?case
  proof (cases rule: EventSource_Next_loop_cases)
    case (failed err)
    then show ?thesis
      using Connect_result[OF failed(1)] Connect_keeps[OF failed(1)] by simp
  next
    case panic
    then show ?thesis
      using Connect_result[OF panic(1)] Connect_keeps[OF panic(1)] by simp
  next
    case (event s1 rc rc1 e)
    then show ?thesis
      using Connect_result[OF event(1)] Connect_keeps[OF event(1)] by simp
  next
    case (eof s1 w1 rc rc1)
    obtain r where c: "Close (s1\<lparr>currentReadCloser := Some rc1\<rparr>) w1 = (r, s', w')"
      using eof(5) by (cases "Close (s1\<lparr>currentReadCloser := Some rc1\<rparr>) w1") simp
    show ?thesis
      using Connect_result[OF eof(1)] Connect_keeps[OF eof(1)] Close_result[OF c] eof(4) by simp
  next
    case (closed s1 rc rc1 err)
    then show ?thesis
      using Connect_result[OF closed(1)] Connect_keeps[OF closed(1)] by simp
  next
    case (again s1 w1 rc rc1 err)
    let ?s3 = "s1\<lparr>currentReadCloser := None\<rparr>"
    have ih: "(\<exists>k. slept w' = slept (waitForRetry ?s3 w1) @ replicate k (backoff_interval ?s3))
       \<and> DefaultRetryInterval s' = DefaultRetryInterval ?s3
       \<and> retryInterval s' =
           (case res of Inl err \<Rightarrow> retryInterval ?s3
            | Inr event \<Rightarrow> if Retry event \<noteq> 0 then Retry event else retryInterval ?s3)"
      using again by (intro round(2))
    have b: "backoff_interval ?s3 = backoff_interval s"
      using Connect_keeps[OF again(1)] by (simp add: backoff_interval_def)
    obtain j where j: "slept w1 = slept w @ replicate j (backoff_interval s)"
      using Connect_result[OF again(1)] by blast
    obtain k where k: "slept w' = slept (waitForRetry ?s3 w1) @ replicate k (backoff_interval s)"
      using ih b by auto
    have "slept w' = (slept w @ replicate j (backoff_interval s))
                      @ [backoff_interval s] @ replicate k (backoff_interval s)"
      using j k b by (simp add: waitForRetry_backoff)
    then have "slept w' = slept w @ replicate (Suc (j + k)) (backoff_interval s)"
      using replicate_backoff[of j "backoff_interval s" k] by simp
    then have sl: "\<exists>k. slept w' = slept w @ replicate k (backoff_interval s)"
      by blast
    have ri: "retryInterval ?s3 = retryInterval s"
      and di: "DefaultRetryInterval ?s3 = DefaultRetryInterval s"
      using Connect_keeps[OF again(1)] by simp_all
    have "retryInterval s' =
           (case res of Inl err \<Rightarrow> retryInterval s
            | Inr event \<Rightarrow> if Retry event \<noteq> 0 then Retry event else retryInterval s)"
      using ih ri by (cases res) simp_all
    then show ?thesis
      using sl ih di by simp
  qed
qed

lemma EventSource_Next_backoff:
  assumes "EventSource_Next s w = Some (res, s', w')"
  shows "(\<exists>k. slept w' = slept w @ replicate k (backoff_interval s))
       \<and> DefaultRetryInterval s' = DefaultRetryInterval s
       \<and> retryInterval s' =
           (case res of Inl err \<Rightarrow> retryInterval s
            | Inr event \<Rightarrow> if Retry event \<noteq> 0 then Retry event else retryInterval s)"
proof (cases "closed s")
  case True
  then have r: "res = Inl ErrReadFromClosedSource" "s' = s" "w' = w"
    using assms by (simp_all add: EventSource_Next_def)
  have "\<exists>k. slept w' = slept w @ replicate k (backoff_interval s)"
    using r(3) by (intro exI[of _ 0]) simp
  then show ?thesis
    using r(1,2) by simp
next
  case False
  then show ?thesis
    using assms EventSource_Next_loop_backoff[of s w res s' w'] by (simp add: EventSource_Next_def)
qed

lemma Next_calls_directive:
  assumes "Next_calls n s w = Some (ress, s', w')"
  shows "retryInterval s' = last_directive (retryInterval s) ress
       \<and> DefaultRetryInterval s' = DefaultRetryInterval s"
  using assms
proof (induction n arbitrary: s w ress)
  case 0
  then show ?case by simp
next
  case (Suc n)
  obtain res s1 w1 where f: "EventSource_Next s w = Some (res, s1, w1)"
    using Suc.prems by (auto split: option.splits)
  obtain ress1 where r: "Next_calls n s1 w1 = Some (ress1, s', w')" and e: "ress = res # ress1"
    using Suc.prems f by (auto split: option.splits)
  note b = EventSource_Next_backoff[OF f]
  have ih: "retryInterval s' = last_directive (retryInterval s1) ress1
       \<and> DefaultRetryInterval s' = DefaultRetryInterval s1"
    using r by (rule Suc.IH)
  show ?case
    using ih b e by (cases res) simp_all
qed

lemma EventSource_Next_loop_invariant:
  assumes "EventSource_Next_loop s w = Some (res, s', w')" and "\<not> closed s"
  shows "stream_only_while_open s'"
  using assms
proof (induction rule: EventSource_Next_loop_induct)
  case (round s w)
  from round(1) show ?case
  proof (cases rule: EventSource_Next_loop_cases)
    case (failed err)
    then show ?thesis
      using Connect_result[OF failed(1)] round(3) by (auto simp: stream_only_while_open_def)
  next
    case panic
    then show ?thesis by (simp add: stream_only_while_open_def)
  next
    case (event s1 rc rc1 e)
    then show ?thesis
      using Connect_result[OF event(1)] round(3) by (auto simp: stream_only_while_open_def)
  next
    case (eof s1 w1 rc rc1)
    obtain r where c: "Close (s1\<lparr>currentReadCloser := Some rc1\<rparr>) w1 = (r, s', w')"
      using eof(5) by (cases "Close (s1\<lparr>currentReadCloser := Some rc1\<rparr>) w1") simp
    show ?thesis
      using Close_result[OF c] by (simp add: stream_only_while_open_def)
  next
    case (closed s1 rc rc1 err)
    then show ?thesis
      using Connect_result[OF closed(1)] round(3) by (auto simp: stream_only_while_open_def)
  next
    case (again s1 w1 rc rc1 err)
    then show ?thesis
      by (intro round(2)) simp_all
  qed
qed

lemma EventSource_Next_loop_EOF:
  assumes "EventSource_Next_loop s w = Some (Inl EOF, s', w')"
  shows "closed s' \<and> currentReadCloser s' = None"
  using assms
proof (induction rule: EventSource_Next_loop_induct)
  case (round s w)
  from round(1) show ?case
  proof (cases rule: EventSource_Next_loop_cases)
    case (failed err)
    then show ?thesis
      using Connect_result[OF failed(1)] by auto
  next
    case (eof s1 w1 rc rc1)
    obtain r where c: "Close (s1\<lparr>currentReadCloser := Some rc1\<rparr>) w1 = (r, s', w')"
      using eof(5) by (cases "Close (s1\<lparr>currentReadCloser := Some rc1\<rparr>) w1") simp
    show ?thesis
      using Close_result[OF c] by simp
  next
    case (again s1 w1 rc rc1 err)
    then show ?thesis
      by (intro round(2))
  qed simp_all
qed

lemma EventSource_Next_loop_never_panics:
  assumes "EventSource_Next_loop s w = Some (res, s', w')"
  shows "res \<noteq> Inl NilPointerPanic"
  using assms
proof (induction rule: EventSource_Next_loop_induct)
  case (round s w)
  from round(1) show ?case
  proof (cases rule: EventSource_Next_loop_cases)
    case (failed err)
    then show ?thesis
      using Connect_result[OF failed(1)] by auto
  next
    case panic
    then show ?thesis
      using Connect_result[OF panic(1)] by auto
  next
    case (again s1 w1 rc rc1 err)
    then show ?thesis
      by (intro round(2))
  qed simp_all
qed

lemma EventSource_Next_loop_EOF_round:
  assumes "Connect s w = Some (None, s1, w1)" and "currentReadCloser s1 = Some rc"
    and "ReadCloser_Next rc = Some (Inl EOF, rc1)"
  shows "EventSource_Next_loop s w =
         Some (Inl EOF, s1\<lparr>closed := True, currentReadCloser := None\<rparr>,
               snd (ReadCloser_Close rc1 w1))"
  using assms
  by (subst EventSource_Next_loop.simps)
     (auto simp: Let_def Close_def split: prod.splits option.splits)

lemma Connect_loop_count:
  assumes "Connect_loop s w = Some (r, s1, w1)"
  shows "length (requests w1) + length (slept w) = Suc (length (requests w) + length (slept w1))"
  using assms
proof (induction s w rule: Connect_loop.induct)
  case (1 source world)
  show ?case
    using "1.prems" "1.IH"
    by (subst (asm) Connect_loop.simps)
       (fastforce split: list.splits sum.splits if_splits
          simp: Let_def Body_Close_def waitForRetry_def time_Sleep_def)
qed

lemma Connect_count:
  assumes "Connect s w = Some (r, s1, w1)"
  shows "length (requests w1) + length (slept w) =
         length (requests w) + length (slept w1) + (if currentReadCloser s = None then 1 else 0)"
  using assms Connect_loop_count[of s w r s1 w1]
  by (auto simp: Connect_def split: if_splits)

lemma Close_world:
  assumes "Close s w = (r, s', w')"
  shows "requests w' = requests w" and "transport w' = transport w"
  using assms
  by (auto simp: Close_def Let_def Body_Close_def split: option.splits prod.splits
      elim!: ReadCloser_Close.elims)

lemma EventSource_Next_loop_count:
  assumes "EventSource_Next_loop s w = Some (res, s', w')"
  shows "length (requests w') + length (slept w) =
         length (requests w) + length (slept w') + (if currentReadCloser s = None then 1 else 0)"
  using assms
proof (induction rule: EventSource_Next_loop_induct)
  case (round s w)
  from round(1) show ?case
  proof (cases rule: EventSource_Next_loop_cases)
    case (failed err)
    then show ?thesis
      using Connect_count[OF failed(1)] by simp
  next
    case panic
    then show ?thesis
      using Connect_count[OF panic(1)] by simp
  next
    case (event s1 rc rc1 e)
    then show ?thesis
      using Connect_count[OF event(1)] by simp
  next
    case (eof s1 w1 rc rc1)
    obtain r where c: "Close (s1\<lparr>currentReadCloser := Some rc1\<rparr>) w1 = (r, s', w')"
      using eof(5) by (cases "Close (s1\<lparr>currentReadCloser := Some rc1\<rparr>) w1") simp
    show ?thesis
      using Connect_count[OF eof(1)] Close_result(2)[OF c] Close_world(1)[OF c] by simp
  next
    case (closed s1 rc rc1 err)
    then show ?thesis
      using Connect_count[OF closed(1)] by simp
  next
    case (again s1 w1 rc rc1 err)
    let ?s3 = "s1\<lparr>currentReadCloser := None\<rparr>"
    have ih: "length (requests w') + length (slept (waitForRetry ?s3 w1)) =
         length (requests (waitForRetry ?s3 w1)) + length (slept w')
         + (if currentReadCloser ?s3 = None then 1 else 0)"
      using again by (intro round(2))
    then have "length (requests w') + length (slept w1) = length (requests w1) + length (slept w')"
      by (simp add: waitForRetry_backoff)
    then show ?thesis
      using Connect_count[OF again(1)] by simp
  qed
qed

lemma EventSource_Next_retry_round:
  assumes "\<not> closed s" and "Connect s w = Some (None, s1, w1)"
    and "currentReadCloser s1 = Some rc" and "ReadCloser_Next rc = Some (Inl err, rc1)"
    and "err \<noteq> EOF"
  shows "EventSource_Next s w =
         EventSource_Next (s1\<lparr>currentReadCloser := None\<rparr>)
           (w1\<lparr>slept := slept w1 @ [backoff_interval s]\<rparr>)"
proof -
  have c: "\<not> closed s1"
    using Connect_result[OF assms(2)] assms(1) by auto
  have b: "backoff_interval (s1\<lparr>currentReadCloser := None\<rparr>) = backoff_interval s"
    using Connect_keeps[OF assms(2)] by (simp add: backoff_interval_def)
  have "EventSource_Next_loop s w =
        EventSource_Next_loop (s1\<lparr>currentReadCloser := None\<rparr>)
          (waitForRetry (s1\<lparr>currentReadCloser := None\<rparr>) w1)"
    using assms c by (subst EventSource_Next_loop.simps) (simp add: Let_def)
  then show ?thesis
    using assms(1) c b by (simp add: EventSource_Next_def waitForRetry_backoff)
qed

lemma Connect_retry_round:
  assumes "currentReadCloser s = None" and "transport w = answer # answers"
    and "(\<exists>err. answer = Inl err)
         \<or> (\<exists>res. answer = Inr res \<and> StatusCode res \<in> {StatusInternalServerError, StatusBadGateway,
                                         StatusServiceUnavailable, StatusGatewayTimeout})"
  shows "Connect s w =
         Connect s (w\<lparr>transport := answers, requests := requests w @ [lastEventID s],
                      closed_bodies := closed_bodies w @
                        (case answer of Inl err \<Rightarrow> [] | Inr res \<Rightarrow> [ResponseBody res]),
                      slept := slept w @ [backoff_interval s]\<rparr>)"
  using assms(1,3) Connect_loop_answer[OF assms(2), of s]
  by (auto simp: Connect_def Let_def waitForRetry_backoff)

lemma Connect_waits:
  assumes "Connect s w = Some (r, s', w')"
  shows "\<exists>k. slept w' = slept w @ replicate k (backoff_interval s)
           \<and> length (requests w') =
               length (requests w) + k + (if currentReadCloser s = None then 1 else 0)"
proof -
  obtain k where k: "slept w' = slept w @ replicate k (backoff_interval s)"
    using Connect_result[OF assms] by blast
  then have "length (slept w') = length (slept w) + k"
    by simp
  then have "length (requests w') =
               length (requests w) + k + (if currentReadCloser s = None then 1 else 0)"
    using Connect_count[OF assms] by simp
  then show ?thesis
    using k by blast
qed

lemma EventSource_Next_waits:
  assumes "EventSource_Next s w = Some (res, s', w')" and "\<not> closed s"
  shows "\<exists>k. slept w' = slept w @ replicate k (backoff_interval s)
           \<and> length (requests w') =
               length (requests w) + k + (if currentReadCloser s = None then 1 else 0)"
proof -
  have l: "EventSource_Next_loop s w = Some (res, s', w')"
    using assms by (simp add: EventSource_Next_def)
  obtain k where k: "slept w' = slept w @ replicate k (backoff_interval s)"
    using EventSource_Next_loop_backoff[OF l] by blast
  then have "length (slept w') = length (slept w) + k"
    by simp
  then have "length (requests w') =
               length (requests w) + k + (if currentReadCloser s = None then 1 else 0)"
    using EventSource_Next_loop_count[OF l] by simp
  then show ?thesis
    using k by blast
qed

section \<open>The properties of the specification\<close>

text \<open>
  Claim C1, as the code has it. \<open>Encode\<close> writes the id and the name as they are, so
  the round trip holds for the events whose id and name hold no line feed: for
  such an event, \<open>Reader.Next\<close> on a reader whose input starts with the encoded
  event returns the event with the same id, name and data (and no retry
  interval, which the encoding does not carry), remembers its id, and leaves the
  rest of the input. \<open>Encode\<close> emits, after the id and event lines, one data line
  per fragment of the data, the fragments being the pieces between the line
  feeds: one more than there are line feeds, none holding a line feed; the parser
  joins them with line feeds again and trims one trailing line feed.
\<close>

theorem Encode_Next_roundtrip:
  assumes "LF \<notin> set (ID e)" and "LF \<notin> set (Name e)" and "buf r = Encode e @ rest"
  shows "Reader_Next r = (Inr (e\<lparr>Retry := 0\<rparr>), r\<lparr>buf := rest, lastID := ID e\<rparr>)
       \<and> Encode e = ''id: '' @ ID e @ [LF] @ ''event: '' @ Name e @ [LF]
                      @ wire_lines (map data_line (bytes_Split (Data e) LF)) @ [LF]
       \<and> length (bytes_Split (Data e) LF) = Suc (count_list (Data e) LF)
       \<and> (\<forall>f \<in> set (bytes_Split (Data e) LF). LF \<notin> set f)
       \<and> concat (map (\<lambda>f. f @ [LF]) (bytes_Split (Data e) LF)) = Data e @ [LF]"
proof -
  have "Encode e = ''id: '' @ ID e @ [LF] @ ''event: '' @ Name e @ [LF]
                      @ wire_lines (map data_line (bytes_Split (Data e) LF)) @ [LF]"
    by (simp add: Encode_lines block_wire_def wire_lines_def)
  then show ?thesis
    using Next_Encode[OF assms] bytes_Split_length[of "Data e" LF]
      bytes_Split_no_sep[of "Data e" LF] bytes_Split_join[of LF "Data e"]
    by (intro conjI)
qed

text \<open>The event of the test of \<open>Encode\<close>, whose data ends with a line feed, parsed back.\<close>

theorem Encode_Next_roundtrip_witness:
  "Reader_Next (NewReader (Encode \<lparr>ID = ''some-id'', Name = ''some-name'',
       Data = ''some-data'' @ [LF] @ ''some-more-data'' @ [LF], Retry = 0\<rparr>) EOF) =
   (Inr \<lparr>ID = ''some-id'', Name = ''some-name'',
       Data = ''some-data'' @ [LF] @ ''some-more-data'' @ [LF], Retry = 0\<rparr>,
    \<lparr>lastID = ''some-id'', buf = [], source_err = EOF\<rparr>)"
proof -
  define e where "e = \<lparr>ID = ''some-id'', Name = ''some-name'',
       Data = ''some-data'' @ [LF] @ ''some-more-data'' @ [LF], Retry = 0\<rparr>"
  have 1: "LF \<notin> set (ID e)" and 2: "LF \<notin> set (Name e)"
    by (simp_all add: e_def)
  have 3: "buf (NewReader (Encode e) EOF) = Encode e @ []"
    by (simp add: NewReader_def)
  have "Reader_Next (NewReader (Encode e) EOF) =
        (Inr (e\<lparr>Retry := 0\<rparr>), (NewReader (Encode e) EOF)\<lparr>buf := [], lastID := ID e\<rparr>)"
    using Encode_Next_roundtrip[OF 1 2 3] by (rule conjunct1)
  then show ?thesis
    by (simp add: NewReader_def e_def)
qed

text \<open>
  Claim C1 as stated fails for an event whose id holds a line feed: the id
  \<open>a\<newline>b\<close> is encoded on two lines and comes back as \<open>a\<close>.
\<close>

theorem Encode_Next_roundtrip_counterexample:
  "fst (Reader_Next (NewReader (Encode \<lparr>ID = ''a'' @ [LF] @ ''b'', Name = ''n'', Data = ''d'', Retry = 0\<rparr>) EOF))
   \<noteq> Inr \<lparr>ID = ''a'' @ [LF] @ ''b'', Name = ''n'', Data = ''d'', Retry = 0\<rparr>"
  by code_simp

text \<open>
  Claim C2: on a closed session \<open>EventSource.Next\<close> returns the closed-source error
  at once, leaving the session and the environment as they were (no request, no
  read, no wait). When the parser reports the end of the data, \<open>Next\<close> closes the
  session (the flag is set, the handle released, the body closed) and returns the
  end of the data; whenever \<open>Next\<close> has returned the end of the data, the session
  is closed and holds no handle, so every later \<open>Next\<close> returns the closed-source
  error at once, in any environment; a \<open>Connect\<close> that succeeds from a state with no
  handle clears the flag.
\<close>

theorem closed_source_and_end_of_data:
  "(closed s \<longrightarrow> EventSource_Next s w = Some (Inl ErrReadFromClosedSource, s, w))
   \<and> (\<not> closed s \<and> Connect s w = Some (None, s1, w1) \<and> currentReadCloser s1 = Some rc
        \<and> ReadCloser_Next rc = Some (Inl EOF, rc1) \<longrightarrow>
      EventSource_Next s w =
        Some (Inl EOF, s1\<lparr>closed := True, currentReadCloser := None\<rparr>,
              snd (ReadCloser_Close rc1 w1)))
   \<and> (EventSource_Next s w = Some (Inl EOF, s', w') \<longrightarrow>
        closed s' \<and> currentReadCloser s' = None
        \<and> (\<forall>w2. EventSource_Next s' w2 = Some (Inl ErrReadFromClosedSource, s', w2)))
   \<and> (currentReadCloser s = None \<and> Connect s w = Some (None, s2, w2) \<longrightarrow>
        \<not> closed s2 \<and> currentReadCloser s2 \<noteq> None)"
proof (intro conjI impI)
  assume "closed s"
  then show "EventSource_Next s w = Some (Inl ErrReadFromClosedSource, s, w)"
    by (simp add: EventSource_Next_def)
next
  assume "\<not> closed s \<and> Connect s w = Some (None, s1, w1) \<and> currentReadCloser s1 = Some rc
        \<and> ReadCloser_Next rc = Some (Inl EOF, rc1)"
  then show "EventSource_Next s w =
        Some (Inl EOF, s1\<lparr>closed := True, currentReadCloser := None\<rparr>,
              snd (ReadCloser_Close rc1 w1))"
    using EventSource_Next_loop_EOF_round[of s w s1 w1 rc rc1]
    by (simp add: EventSource_Next_def)
next
  assume a: "EventSource_Next s w = Some (Inl EOF, s', w')"
  then have "EventSource_Next_loop s w = Some (Inl EOF, s', w')"
    by (auto simp: EventSource_Next_def split: if_splits)
  then have c: "closed s' \<and> currentReadCloser s' = None"
    by (rule EventSource_Next_loop_EOF)
  then show "closed s'" and "currentReadCloser s' = None"
    by simp_all
  show "\<forall>w2. EventSource_Next s' w2 = Some (Inl ErrReadFromClosedSource, s', w2)"
    using c by (simp add: EventSource_Next_def)
next
  assume a: "currentReadCloser s = None \<and> Connect s w = Some (None, s2, w2)"
  then show "\<not> closed s2" and "currentReadCloser s2 \<noteq> None"
    using Connect_result[of s w None s2 w2] by auto
qed

text \<open>A stream that ends at once: the first call returns the end of the data, the second the closed-source error.\<close>

theorem closed_source_and_end_of_data_witness:
  "EventSource_Next test_source (test_world [Inr (stream_response [EndOfData])]) =
     Some (Inl EOF, test_source\<lparr>closed := True\<rparr>,
           \<lparr>transport = [], requests = [[]], slept = [],
            closed_bodies = [\<lparr>incoming = [], close_error = None\<rparr>]\<rparr>)
   \<and> EventSource_Next (test_source\<lparr>closed := True\<rparr>)
         \<lparr>transport = [], requests = [[]], slept = [],
          closed_bodies = [\<lparr>incoming = [], close_error = None\<rparr>]\<rparr> =
     Some (Inl ErrReadFromClosedSource, test_source\<lparr>closed := True\<rparr>,
           \<lparr>transport = [], requests = [[]], slept = [],
            closed_bodies = [\<lparr>incoming = [], close_error = None\<rparr>]\<rparr>)"
proof -
  let ?w1 = "\<lparr>transport = [], requests = [[]], slept = [],
            closed_bodies = [\<lparr>incoming = [], close_error = None\<rparr>]\<rparr>"
  have ev: "EventSource_Next test_source (test_world [Inr (stream_response [EndOfData])]) =
     Some (Inl EOF, test_source\<lparr>closed := True\<rparr>, ?w1)"
    by code_simp
  have "\<forall>w2. EventSource_Next (test_source\<lparr>closed := True\<rparr>) w2 =
          Some (Inl ErrReadFromClosedSource, test_source\<lparr>closed := True\<rparr>, w2)"
    using closed_source_and_end_of_data[where s = test_source
        and w = "test_world [Inr (stream_response [EndOfData])]"
        and s' = "test_source\<lparr>closed := True\<rparr>" and w' = ?w1] ev
    by blast
  then show ?thesis
    using ev by blast
qed

text \<open>
  Claim C3: when \<open>Connect\<close> holds no stream and the transport answers with a
  response, the status decides. OK: the body becomes the current stream, the closed
  flag is cleared and \<open>Connect\<close> returns success. Internal server error, bad
  gateway, service unavailable, gateway timeout: the body is closed, the backoff
  interval is waited and \<open>Connect\<close> goes on with the next request. Any other
  status: the body is closed and \<open>Connect\<close> returns the bad-response error holding
  the response, with no wait and no further request.
\<close>

theorem Connect_classifies_status:
  assumes "currentReadCloser s = None" and "transport w = Inr res # answers"
  shows "(StatusCode res = StatusOK \<longrightarrow>
            Connect s w =
              Some (None,
                    s\<lparr>currentReadCloser := Some (NewReadCloser (ResponseBody res)), closed := False\<rparr>,
                    w\<lparr>transport := answers, requests := requests w @ [lastEventID s]\<rparr>))
       \<and> (StatusCode res \<in> {StatusInternalServerError, StatusBadGateway,
                              StatusServiceUnavailable, StatusGatewayTimeout} \<longrightarrow>
            Connect s w =
              Connect s (w\<lparr>transport := answers, requests := requests w @ [lastEventID s],
                           closed_bodies := closed_bodies w @ [ResponseBody res],
                           slept := slept w @ [backoff_interval s]\<rparr>))
       \<and> (StatusCode res \<notin> {StatusOK, StatusInternalServerError, StatusBadGateway,
                              StatusServiceUnavailable, StatusGatewayTimeout} \<longrightarrow>
            Connect s w =
              Some (Some (BadResponseError res), s,
                    w\<lparr>transport := answers, requests := requests w @ [lastEventID s],
                      closed_bodies := closed_bodies w @ [ResponseBody res]\<rparr>))"
  using assms(1) Connect_loop_answer[OF assms(2), of s]
  by (auto simp: Connect_def Let_def waitForRetry_backoff)

text \<open>
  A 503 followed by a 404: one wait of the default interval, then the bad-response
  error, the third answer left unused. A 200: success.
\<close>

theorem Connect_classifies_status_witness:
  "Connect \<lparr>DefaultRetryInterval = 100000000, currentReadCloser = None, lastEventID = ''2'',
            retryInterval = 0, closed = True\<rparr>
           \<lparr>transport = [Inr \<lparr>StatusCode = 503, ResponseBody = \<lparr>incoming = [], close_error = None\<rparr>\<rparr>,
                          Inr \<lparr>StatusCode = 404, ResponseBody = \<lparr>incoming = [], close_error = None\<rparr>\<rparr>,
                          Inr \<lparr>StatusCode = 200, ResponseBody = \<lparr>incoming = [EndOfData], close_error = None\<rparr>\<rparr>],
            requests = [], slept = [], closed_bodies = []\<rparr> =
   Some (Some (BadResponseError \<lparr>StatusCode = 404, ResponseBody = \<lparr>incoming = [], close_error = None\<rparr>\<rparr>),
         \<lparr>DefaultRetryInterval = 100000000, currentReadCloser = None, lastEventID = ''2'',
            retryInterval = 0, closed = True\<rparr>,
         \<lparr>transport = [Inr \<lparr>StatusCode = 200, ResponseBody = \<lparr>incoming = [EndOfData], close_error = None\<rparr>\<rparr>],
          requests = [''2'', ''2''], slept = [100000000],
          closed_bodies = [\<lparr>incoming = [], close_error = None\<rparr>, \<lparr>incoming = [], close_error = None\<rparr>]\<rparr>)
   \<and> Connect \<lparr>DefaultRetryInterval = 100000000, currentReadCloser = None, lastEventID = ''2'',
            retryInterval = 0, closed = True\<rparr>
           \<lparr>transport = [Inr \<lparr>StatusCode = 200, ResponseBody = \<lparr>incoming = [EndOfData], close_error = None\<rparr>\<rparr>],
            requests = [], slept = [], closed_bodies = []\<rparr> =
   Some (None,
         \<lparr>DefaultRetryInterval = 100000000,
          currentReadCloser = Some (NewReadCloser \<lparr>incoming = [EndOfData], close_error = None\<rparr>),
          lastEventID = ''2'', retryInterval = 0, closed = False\<rparr>,
         \<lparr>transport = [], requests = [''2''], slept = [], closed_bodies = []\<rparr>)"
proof -
  define s :: EventSource where "s = \<lparr>DefaultRetryInterval = 100000000, currentReadCloser = None,
            lastEventID = ''2'', retryInterval = 0, closed = True\<rparr>"
  define b0 :: Body where "b0 = \<lparr>incoming = [], close_error = None\<rparr>"
  define b1 :: Body where "b1 = \<lparr>incoming = [EndOfData], close_error = None\<rparr>"
  define r503 where "r503 = \<lparr>StatusCode = 503, ResponseBody = b0\<rparr>"
  define r404 where "r404 = \<lparr>StatusCode = 404, ResponseBody = b0\<rparr>"
  define r200 where "r200 = \<lparr>StatusCode = 200, ResponseBody = b1\<rparr>"
  define w :: World where "w = \<lparr>transport = [Inr r503, Inr r404, Inr r200],
            requests = [], slept = [], closed_bodies = []\<rparr>"
  define w1 :: World where "w1 = \<lparr>transport = [Inr r404, Inr r200],
            requests = [''2''], slept = [100000000], closed_bodies = [b0]\<rparr>"
  define w2 :: World where "w2 = \<lparr>transport = [Inr r200],
            requests = [], slept = [], closed_bodies = []\<rparr>"
  have h: "currentReadCloser s = None" by (simp add: s_def)
  have "Connect s w = Connect s w1"
    using Connect_classifies_status[OF h, of w r503 "[Inr r404, Inr r200]"]
    by (simp add: w_def w1_def r503_def s_def backoff_interval_def)
  also have "\<dots> = Some (Some (BadResponseError r404), s,
        \<lparr>transport = [Inr r200], requests = [''2'', ''2''], slept = [100000000],
         closed_bodies = [b0, b0]\<rparr>)"
    using Connect_classifies_status[OF h, of w1 r404 "[Inr r200]"]
    by (simp add: w1_def r404_def s_def)
  finally have 1: "Connect s w = Some (Some (BadResponseError r404), s,
        \<lparr>transport = [Inr r200], requests = [''2'', ''2''], slept = [100000000],
         closed_bodies = [b0, b0]\<rparr>)" .
  have 2: "Connect s w2 = Some (None,
        s\<lparr>currentReadCloser := Some (NewReadCloser b1), closed := False\<rparr>,
        \<lparr>transport = [], requests = [''2''], slept = [], closed_bodies = []\<rparr>)"
    using Connect_classifies_status[OF h, of w2 r200 "[]"]
    by (simp add: w2_def r200_def s_def)
  show ?thesis
    using 1 2 by (simp add: s_def w_def w2_def r503_def r404_def r200_def b0_def b1_def)
qed

text \<open>
  Claim C4 says that a blank line met while the data buffer is empty resets the
  pending id, name and id flag. The code only continues with the next line: in the
  input below the id and the name given before the discarded blank line are those
  of the event dispatched after it, and the id is remembered.
\<close>

theorem blank_line_keeps_accumulator:
  "Reader_Next (NewReader (''id: 12'' @ [LF] @ ''event: some-event'' @ [LF] @ [LF]
                           @ ''data: hello'' @ [LF] @ [LF]) EOF) =
   (Inr \<lparr>ID = ''12'', Name = ''some-event'', Data = ''hello'', Retry = 0\<rparr>,
    \<lparr>lastID = ''12'', buf = [], source_err = EOF\<rparr>)"
  by code_simp


text \<open>
  Claim C6 says that a carriage return before the line feed belongs to the line
  boundary. The code trims the line feed only: on the input of the test of the
  CRLF line ending the line holding a lone carriage return is not a blank line, no
  event is dispatched, and the call ends with the end of the data; the same block
  with bare line feeds is dispatched.
\<close>

theorem CRLF_not_dispatched:
  "Reader_Next (NewReader ('':foo bar baz'' @ [CR, LF] @ ''id: 123'' @ [CR, LF]
                           @ ''event: some-event'' @ [CR, LF] @ ''data: hello'' @ [CR, LF]
                           @ [CR, LF]) EOF) =
   (Inl EOF, \<lparr>lastID = [], buf = [], source_err = EOF\<rparr>)
   \<and> Reader_Next (NewReader (''data: hello'' @ [LF] @ [LF]) EOF) =
   (Inr \<lparr>ID = [], Name = [], Data = ''hello'', Retry = 0\<rparr>, \<lparr>lastID = [], buf = [], source_err = EOF\<rparr>)"
  by code_simp

text \<open>
  Claim C7: \<open>waitForRetry\<close> waits the interval the policy names: the retry
  directive held by the session if it is not zero, otherwise the default interval
  if it is not zero, otherwise one second. Every retry waits it once: after a
  transport error or a server-error status \<open>Connect\<close> waits that interval and then
  makes the next request, and after a failed read \<open>Next\<close> drops the stream, waits
  that interval and then connects again. So the waits made during a call are all
  of the interval resolved from the state at the call, and there are as many of
  them as requests after the first attempt. The directive held changes only when
  \<open>Next\<close> returns an event with a retry interval that is not zero, and is then that
  interval, which every later wait uses; \<open>Connect\<close>, \<open>Close\<close> and a failing \<open>Next\<close>
  leave it as it is. So after any run of calls of \<open>Next\<close> the directive held is
  that of the most recent event returned with one, if there was one.
\<close>

theorem backoff_resolution:
  "waitForRetry s w = w\<lparr>slept := slept w @ [backoff_interval s]\<rparr>
   \<and> (currentReadCloser s = None \<and> transport w = answer # answers \<and> retryable answer \<longrightarrow>
        Connect s w =
          Connect s (w\<lparr>transport := answers, requests := requests w @ [lastEventID s],
                       closed_bodies := closed_bodies w @ bodies_closed answer,
                       slept := slept w @ [backoff_interval s]\<rparr>))
   \<and> (\<not> closed s \<and> Connect s w = Some (None, s1, w1) \<and> currentReadCloser s1 = Some rc
        \<and> ReadCloser_Next rc = Some (Inl err, rc1) \<and> err \<noteq> EOF \<longrightarrow>
        EventSource_Next s w =
          EventSource_Next (s1\<lparr>currentReadCloser := None\<rparr>)
            (w1\<lparr>slept := slept w1 @ [backoff_interval s]\<rparr>))
   \<and> (Connect s w = Some (r, s', w') \<longrightarrow>
        (\<exists>k. slept w' = slept w @ replicate k (backoff_interval s)
           \<and> length (requests w') =
               length (requests w) + k + (if currentReadCloser s = None then 1 else 0))
        \<and> retryInterval s' = retryInterval s
        \<and> DefaultRetryInterval s' = DefaultRetryInterval s)
   \<and> (EventSource_Next s w = Some (res, s', w') \<longrightarrow>
        (\<exists>k. slept w' = slept w @ replicate k (backoff_interval s)
           \<and> (\<not> closed s \<longrightarrow>
                length (requests w') =
                  length (requests w) + k + (if currentReadCloser s = None then 1 else 0)))
        \<and> DefaultRetryInterval s' = DefaultRetryInterval s
        \<and> retryInterval s' =
            (case res of Inl err \<Rightarrow> retryInterval s
             | Inr event \<Rightarrow> if Retry event \<noteq> 0 then Retry event else retryInterval s))
   \<and> (EventSource_Next s w = Some (Inr event, s', w') \<and> Retry event \<noteq> 0 \<longrightarrow>
        backoff_interval s' = Retry event)
   \<and> (Close s w = (e, s', w') \<longrightarrow>
        slept w' = slept w \<and> retryInterval s' = retryInterval s
        \<and> DefaultRetryInterval s' = DefaultRetryInterval s)
   \<and> (Next_calls n s w = Some (ress, s', w') \<longrightarrow>
        retryInterval s' = last_directive (retryInterval s) ress)"
proof (intro conjI impI)
  show "waitForRetry s w = w\<lparr>slept := slept w @ [backoff_interval s]\<rparr>"
    by (rule waitForRetry_backoff)
next
  assume a: "currentReadCloser s = None \<and> transport w = answer # answers \<and> retryable answer"
  then have "(\<exists>err. answer = Inl err)
         \<or> (\<exists>res. answer = Inr res \<and> StatusCode res \<in> {StatusInternalServerError, StatusBadGateway,
                                         StatusServiceUnavailable, StatusGatewayTimeout})"
    by (cases answer) (simp_all add: retryable_def)
  then show "Connect s w =
          Connect s (w\<lparr>transport := answers, requests := requests w @ [lastEventID s],
                       closed_bodies := closed_bodies w @ bodies_closed answer,
                       slept := slept w @ [backoff_interval s]\<rparr>)"
    using a Connect_retry_round[of s w answer answers] by (simp add: bodies_closed_def)
next
  assume "\<not> closed s \<and> Connect s w = Some (None, s1, w1) \<and> currentReadCloser s1 = Some rc
        \<and> ReadCloser_Next rc = Some (Inl err, rc1) \<and> err \<noteq> EOF"
  then show "EventSource_Next s w =
          EventSource_Next (s1\<lparr>currentReadCloser := None\<rparr>)
            (w1\<lparr>slept := slept w1 @ [backoff_interval s]\<rparr>)"
    using EventSource_Next_retry_round[of s w s1 w1 rc err rc1] by simp
next
  assume a: "Connect s w = Some (r, s', w')"
  show "\<exists>k. slept w' = slept w @ replicate k (backoff_interval s)
           \<and> length (requests w') =
               length (requests w) + k + (if currentReadCloser s = None then 1 else 0)"
    using a by (rule Connect_waits)
  show "retryInterval s' = retryInterval s" and "DefaultRetryInterval s' = DefaultRetryInterval s"
    using Connect_keeps[OF a] by simp_all
next
  assume a: "EventSource_Next s w = Some (res, s', w')"
  note l = EventSource_Next_backoff[OF a]
  show "\<exists>k. slept w' = slept w @ replicate k (backoff_interval s)
           \<and> (\<not> closed s \<longrightarrow>
                length (requests w') =
                  length (requests w) + k + (if currentReadCloser s = None then 1 else 0))"
  proof (cases "closed s")
    case True
    then show ?thesis using l by blast
  next
    case False
    then show ?thesis using EventSource_Next_waits[OF a] by blast
  qed
  show "DefaultRetryInterval s' = DefaultRetryInterval s"
    and "retryInterval s' =
           (case res of Inl err \<Rightarrow> retryInterval s
            | Inr event \<Rightarrow> if Retry event \<noteq> 0 then Retry event else retryInterval s)"
    using l by blast+
next
  assume a: "EventSource_Next s w = Some (Inr event, s', w') \<and> Retry event \<noteq> 0"
  then have "\<not> closed s"
    by (auto simp: EventSource_Next_def split: if_splits)
  then have "retryInterval s' = Retry event"
    using a EventSource_Next_loop_backoff[of s w "Inr event" s' w'] by (simp add: EventSource_Next_def)
  then show "backoff_interval s' = Retry event"
    using a by (simp add: backoff_interval_def)
next
  assume a: "Close s w = (e, s', w')"
  show "slept w' = slept w" and "retryInterval s' = retryInterval s"
    and "DefaultRetryInterval s' = DefaultRetryInterval s"
    using Close_result[OF a] by simp_all
next
  assume a: "Next_calls n s w = Some (ress, s', w')"
  show "retryInterval s' = last_directive (retryInterval s) ress"
    using Next_calls_directive[OF a] by simp
qed

text \<open>
  An event with a retry directive of 200 milliseconds is returned; the stream
  breaks, the server answers 503, the transport fails once, and the stream comes
  back. The three waits before the next event are of 200 milliseconds, not of the
  default 100, one before each of the three requests.
\<close>

theorem backoff_resolution_witness:
  "EventSource_Next test_source
     (test_world [Inr (stream_response
                         [Dispatch \<lparr>ID = ''3'', Name = [], Data = ''see you in a bit'', Retry = 200000000\<rparr>,
                          ReadFailure 1]),
                  Inr \<lparr>StatusCode = 503, ResponseBody = \<lparr>incoming = [], close_error = None\<rparr>\<rparr>,
                  Inl 7,
                  Inr (stream_response [Dispatch \<lparr>ID = ''4'', Name = [], Data = ''hello again'', Retry = 0\<rparr>])]) =
   Some (Inr \<lparr>ID = ''3'', Name = [], Data = ''see you in a bit'', Retry = 200000000\<rparr>,
         test_source\<lparr>currentReadCloser := Some (NewReadCloser \<lparr>incoming = [ReadFailure 1], close_error = None\<rparr>),
                      lastEventID := ''3'', retryInterval := 200000000\<rparr>,
         \<lparr>transport = [Inr \<lparr>StatusCode = 503, ResponseBody = \<lparr>incoming = [], close_error = None\<rparr>\<rparr>,
                       Inl 7,
                       Inr (stream_response [Dispatch \<lparr>ID = ''4'', Name = [], Data = ''hello again'', Retry = 0\<rparr>])],
          requests = [[]], slept = [], closed_bodies = []\<rparr>)
   \<and> backoff_interval test_source = 100000000
   \<and> backoff_interval
        (test_source\<lparr>currentReadCloser := Some (NewReadCloser \<lparr>incoming = [ReadFailure 1], close_error = None\<rparr>),
                      lastEventID := ''3'', retryInterval := 200000000\<rparr>) = 200000000
   \<and> EventSource_Next
        (test_source\<lparr>currentReadCloser := Some (NewReadCloser \<lparr>incoming = [ReadFailure 1], close_error = None\<rparr>),
                      lastEventID := ''3'', retryInterval := 200000000\<rparr>)
        \<lparr>transport = [Inr \<lparr>StatusCode = 503, ResponseBody = \<lparr>incoming = [], close_error = None\<rparr>\<rparr>,
                       Inl 7,
                       Inr (stream_response [Dispatch \<lparr>ID = ''4'', Name = [], Data = ''hello again'', Retry = 0\<rparr>])],
          requests = [[]], slept = [], closed_bodies = []\<rparr> =
   Some (Inr \<lparr>ID = ''4'', Name = [], Data = ''hello again'', Retry = 0\<rparr>,
         test_source\<lparr>currentReadCloser := Some (NewReadCloser \<lparr>incoming = [], close_error = None\<rparr>),
                      lastEventID := ''4'', retryInterval := 200000000\<rparr>,
         \<lparr>transport = [], requests = [[], ''3'', ''3'', ''3''],
          slept = [200000000, 200000000, 200000000],
          closed_bodies = [\<lparr>incoming = [], close_error = None\<rparr>]\<rparr>)"
proof -
  let ?e3 = "\<lparr>ID = ''3'', Name = [], Data = ''see you in a bit'', Retry = 200000000\<rparr>"
  let ?e4 = "\<lparr>ID = ''4'', Name = [], Data = ''hello again'', Retry = 0\<rparr>"
  let ?r503 = "\<lparr>StatusCode = 503, ResponseBody = \<lparr>incoming = [], close_error = None\<rparr>\<rparr>"
  let ?w0 = "test_world [Inr (stream_response [Dispatch ?e3, ReadFailure 1]), Inr ?r503, Inl 7,
                         Inr (stream_response [Dispatch ?e4])]"
  let ?s1 = "test_source\<lparr>currentReadCloser := Some (NewReadCloser \<lparr>incoming = [ReadFailure 1], close_error = None\<rparr>),
                      lastEventID := ''3'', retryInterval := 200000000\<rparr>"
  let ?w1 = "\<lparr>transport = [Inr ?r503, Inl 7, Inr (stream_response [Dispatch ?e4])],
          requests = [[]], slept = [], closed_bodies = []\<rparr>"
  let ?s2 = "?s1\<lparr>currentReadCloser := None\<rparr>"
  have ev1: "EventSource_Next test_source ?w0 = Some (Inr ?e3, ?s1, ?w1)"
    by code_simp
  have b0: "backoff_interval test_source = 100000000"
    by (simp add: backoff_interval_def test_source_def)
  have r: "Retry ?e3 \<noteq> 0" by simp
  have "backoff_interval ?s1 = Retry ?e3"
    using backoff_resolution[where s = test_source and w = ?w0 and event = ?e3
        and s' = ?s1 and w' = ?w1] ev1 r
    by blast
  then have b1: "backoff_interval ?s1 = 200000000"
    by simp
  have c: "\<not> closed ?s1" "Connect ?s1 ?w1 = Some (None, ?s1, ?w1)"
    "currentReadCloser ?s1 = Some (NewReadCloser \<lparr>incoming = [ReadFailure 1], close_error = None\<rparr>)"
    "ReadCloser_Next (NewReadCloser \<lparr>incoming = [ReadFailure 1], close_error = None\<rparr>) =
       Some (Inl (OtherError 1), NewReadCloser \<lparr>incoming = [], close_error = None\<rparr>)"
    "OtherError 1 \<noteq> EOF"
    by (simp_all add: test_source_def Connect_def)
  have round: "EventSource_Next ?s1 ?w1 =
        EventSource_Next ?s2 (?w1\<lparr>slept := slept ?w1 @ [backoff_interval ?s1]\<rparr>)"
    using backoff_resolution[where s = ?s1 and w = ?w1 and ?s1.0 = ?s1 and ?w1.0 = ?w1
        and rc = "NewReadCloser \<lparr>incoming = [ReadFailure 1], close_error = None\<rparr>"
        and err = "OtherError 1" and ?rc1.0 = "NewReadCloser \<lparr>incoming = [], close_error = None\<rparr>"] c
    by blast
  have ev2: "EventSource_Next ?s2 (?w1\<lparr>slept := slept ?w1 @ [200000000]\<rparr>) =
     Some (Inr ?e4,
         test_source\<lparr>currentReadCloser := Some (NewReadCloser \<lparr>incoming = [], close_error = None\<rparr>),
                      lastEventID := ''4'', retryInterval := 200000000\<rparr>,
         \<lparr>transport = [], requests = [[], ''3'', ''3'', ''3''],
          slept = [200000000, 200000000, 200000000],
          closed_bodies = [\<lparr>incoming = [], close_error = None\<rparr>]\<rparr>)"
    by code_simp
  have ev3: "EventSource_Next ?s1 ?w1 =
     Some (Inr ?e4,
         test_source\<lparr>currentReadCloser := Some (NewReadCloser \<lparr>incoming = [], close_error = None\<rparr>),
                      lastEventID := ''4'', retryInterval := 200000000\<rparr>,
         \<lparr>transport = [], requests = [[], ''3'', ''3'', ''3''],
          slept = [200000000, 200000000, 200000000],
          closed_bodies = [\<lparr>incoming = [], close_error = None\<rparr>]\<rparr>)"
    using round ev2 by (simp only: b1)
  show ?thesis
    using ev1 ev3 b0 b1 by blast
qed

text \<open>
  Claim C8: \<open>Connect\<close>, \<open>Next\<close> and \<open>Close\<close> preserve the invariant that a stream
  handle is held only while the session is not closed. \<open>Close\<close> sets the flag and
  releases the handle together; a \<open>Next\<close> that sets the flag releases the handle;
  \<open>Connect\<close> never sets the flag, and when it installs a handle the flag is cleared.
\<close>

theorem session_invariant:
  "(Connect s w = Some (r, s', w') \<longrightarrow>
      (stream_only_while_open s \<longrightarrow> stream_only_while_open s')
      \<and> (closed s' \<longrightarrow> closed s)
      \<and> (currentReadCloser s' \<noteq> currentReadCloser s \<longrightarrow>
           currentReadCloser s' \<noteq> None \<and> \<not> closed s'))
   \<and> (EventSource_Next s w = Some (res, s', w') \<longrightarrow>
      (stream_only_while_open s \<longrightarrow> stream_only_while_open s')
      \<and> (closed s' \<and> \<not> closed s \<longrightarrow> currentReadCloser s' = None))
   \<and> (Close s w = (e, s', w') \<longrightarrow>
      closed s' \<and> currentReadCloser s' = None \<and> stream_only_while_open s')"
proof (intro conjI impI)
  assume a: "Connect s w = Some (r, s', w')"
  note c = Connect_result[OF a]
  show "stream_only_while_open s'" if "stream_only_while_open s"
    using c that by (auto simp: stream_only_while_open_def)
  show "closed s" if "closed s'"
    using c that by auto
  show "currentReadCloser s' \<noteq> None" and "\<not> closed s'" if "currentReadCloser s' \<noteq> currentReadCloser s"
    using c that by auto
next
  assume a: "EventSource_Next s w = Some (res, s', w')"
  have open_case: "stream_only_while_open s'" if "\<not> closed s"
    using a that EventSource_Next_loop_invariant[of s w res s' w']
    by (simp add: EventSource_Next_def)
  have closed_case: "s' = s" if "closed s"
    using a that by (simp add: EventSource_Next_def)
  show "stream_only_while_open s'" if "stream_only_while_open s"
    using open_case closed_case that by (cases "closed s") auto
  show "currentReadCloser s' = None" if "closed s' \<and> \<not> closed s"
    using open_case that by (auto simp: stream_only_while_open_def)
next
  assume a: "Close s w = (e, s', w')"
  show "closed s'" and "currentReadCloser s' = None" and "stream_only_while_open s'"
    using Close_result[OF a] by (simp_all add: stream_only_while_open_def)
qed

text \<open>The first event of a stream: the invariant holds before and after the call.\<close>

theorem session_invariant_witness:
  "stream_only_while_open test_source
   \<and> EventSource_Next test_source
        (test_world [Inr (stream_response [Dispatch \<lparr>ID = ''1'', Name = [], Data = ''hello'', Retry = 0\<rparr>])]) =
     Some (Inr \<lparr>ID = ''1'', Name = [], Data = ''hello'', Retry = 0\<rparr>,
           test_source\<lparr>currentReadCloser := Some (NewReadCloser \<lparr>incoming = [], close_error = None\<rparr>),
                        lastEventID := ''1''\<rparr>,
           \<lparr>transport = [], requests = [[]], slept = [], closed_bodies = []\<rparr>)
   \<and> stream_only_while_open
        (test_source\<lparr>currentReadCloser := Some (NewReadCloser \<lparr>incoming = [], close_error = None\<rparr>),
                     lastEventID := ''1''\<rparr>)"
proof -
  let ?s1 = "test_source\<lparr>currentReadCloser := Some (NewReadCloser \<lparr>incoming = [], close_error = None\<rparr>),
                        lastEventID := ''1''\<rparr>"
  let ?w1 = "\<lparr>transport = [], requests = [[]], slept = [], closed_bodies = []\<rparr>"
  let ?e = "\<lparr>ID = ''1'', Name = [], Data = ''hello'', Retry = 0\<rparr>"
  have i: "stream_only_while_open test_source"
    by (simp add: stream_only_while_open_def test_source_def)
  have ev: "EventSource_Next test_source (test_world [Inr (stream_response [Dispatch ?e])]) =
     Some (Inr ?e, ?s1, ?w1)"
    by code_simp
  have "stream_only_while_open ?s1"
    using session_invariant[where s = test_source
        and w = "test_world [Inr (stream_response [Dispatch ?e])]"
        and res = "Inr ?e" and s' = ?s1 and w' = ?w1] i ev
    by blast
  then show ?thesis
    using i ev by blast
qed

text \<open>
  Claim C9: the parser tests the data buffer as accumulated, before it trims the
  trailing line feed. In the loop, a blank line met with an empty buffer dispatches
  nothing and the loop goes on; met with a buffer that is not empty it dispatches
  the event with the last byte of the buffer trimmed. So a block with no data line
  is not dispatched (with nothing after it the call ends with the error of the
  source), and a block with data lines is dispatched with their values joined by
  line feeds. The bare token \<open>data\<close> is a data line with an empty value: a block
  whose only data line has an empty value, whatever its other lines, is dispatched,
  and the data of the event is empty.
\<close>

theorem dispatch_tests_buffer_before_strip:
  "(Data ev = [] \<and> buf q = LF # rest \<longrightarrow>
      Reader_Next_loop ev idp q = Reader_Next_loop ev idp (q\<lparr>buf := rest\<rparr>))
   \<and> (Data ev \<noteq> [] \<and> buf q = LF # rest \<longrightarrow>
      Reader_Next_loop ev idp q =
        (Inr (ev\<lparr>Data := butlast (Data ev)\<rparr>),
         if idp then q\<lparr>buf := rest, lastID := ID ev\<rparr> else q\<lparr>buf := rest\<rparr>))
   \<and> (block_lines block \<and> buf r = block_wire block @ rest \<and> data_values block \<noteq> [] \<longrightarrow>
      Reader_Next r =
        (Inr \<lparr>ID = effective_id (lastID r) block, Name = block_name block,
              Data = butlast (concat (map (\<lambda>v. v @ [LF]) (data_values block))), Retry = 0\<rparr>,
         r\<lparr>buf := rest, lastID := effective_id (lastID r) block\<rparr>))
   \<and> (block_lines block \<and> buf r = block_wire block @ rest \<and> data_values block = [[]] \<longrightarrow>
      Reader_Next r =
        (Inr \<lparr>ID = effective_id (lastID r) block, Name = block_name block, Data = [], Retry = 0\<rparr>,
         r\<lparr>buf := rest, lastID := effective_id (lastID r) block\<rparr>))
   \<and> (block_lines block \<and> buf r = block_wire block @ rest \<and> data_values block = []
        \<and> LF \<notin> set rest \<longrightarrow>
      Reader_Next r = (Inl (source_err r), r\<lparr>buf := []\<rparr>))
   \<and> line_field ''data'' = ''data'' \<and> line_value ''data'' = []"
proof (intro conjI impI)
  assume "Data ev = [] \<and> buf q = LF # rest"
  then show "Reader_Next_loop ev idp q = Reader_Next_loop ev idp (q\<lparr>buf := rest\<rparr>)"
    using Reader_Next_loop_blank[of q rest ev idp] by simp
next
  assume "Data ev \<noteq> [] \<and> buf q = LF # rest"
  then show "Reader_Next_loop ev idp q =
        (Inr (ev\<lparr>Data := butlast (Data ev)\<rparr>),
         if idp then q\<lparr>buf := rest, lastID := ID ev\<rparr> else q\<lparr>buf := rest\<rparr>)"
    using Reader_Next_loop_blank[of q rest ev idp] by simp
next
  assume "block_lines block \<and> buf r = block_wire block @ rest \<and> data_values block \<noteq> []"
  then show "Reader_Next r =
        (Inr \<lparr>ID = effective_id (lastID r) block, Name = block_name block,
              Data = butlast (concat (map (\<lambda>v. v @ [LF]) (data_values block))), Retry = 0\<rparr>,
         r\<lparr>buf := rest, lastID := effective_id (lastID r) block\<rparr>)"
    using Next_block_event[of block r rest] by (simp add: block_lines_def)
next
  assume a: "block_lines block \<and> buf r = block_wire block @ rest \<and> data_values block = [[]]"
  then have "data_values block \<noteq> []" by simp
  then show "Reader_Next r =
        (Inr \<lparr>ID = effective_id (lastID r) block, Name = block_name block, Data = [], Retry = 0\<rparr>,
         r\<lparr>buf := rest, lastID := effective_id (lastID r) block\<rparr>)"
    using a Next_block_event[of block r rest] by (simp add: block_lines_def)
next
  assume "block_lines block \<and> buf r = block_wire block @ rest \<and> data_values block = []
        \<and> LF \<notin> set rest"
  then show "Reader_Next r = (Inl (source_err r), r\<lparr>buf := []\<rparr>)"
    using Next_block_no_data[of block r rest] by (simp add: block_lines_def)
next
  show "line_field ''data'' = ''data''" and "line_value ''data'' = []"
    by (simp_all add: line_field_def line_value_def SplitN2_def)
qed

text \<open>
  A block with an id line, an event line and the bare token \<open>data\<close> is dispatched
  with empty data; the same block without the data line is not dispatched.
\<close>

theorem dispatch_tests_buffer_before_strip_witness:
  "Reader_Next (NewReader (''id: 5'' @ [LF] @ ''event: x'' @ [LF] @ ''data'' @ [LF] @ [LF]) EOF) =
     (Inr \<lparr>ID = ''5'', Name = ''x'', Data = [], Retry = 0\<rparr>,
      \<lparr>lastID = ''5'', buf = [], source_err = EOF\<rparr>)
   \<and> Reader_Next (NewReader (''id: 5'' @ [LF] @ ''event: x'' @ [LF] @ [LF]) EOF) =
     (Inl EOF, \<lparr>lastID = [], buf = [], source_err = EOF\<rparr>)"
proof -
  define b1 where "b1 = [''id: 5'', ''event: x'', ''data'']"
  define b2 where "b2 = [''id: 5'', ''event: x'']"
  define r1 where "r1 = NewReader (''id: 5'' @ [LF] @ ''event: x'' @ [LF] @ ''data'' @ [LF] @ [LF]) EOF"
  define r2 where "r2 = NewReader (''id: 5'' @ [LF] @ ''event: x'' @ [LF] @ [LF]) EOF"
  have f: "line_field ''id: 5'' = ''id''" "line_field ''event: x'' = ''event''"
    "line_field ''data'' = ''data''" "line_value ''id: 5'' = ''5''"
    "line_value ''event: x'' = ''x''" "line_value ''data'' = []"
    by (simp_all add: line_field_def line_value_def SplitN2_def)
  have h1: "block_lines b1 \<and> buf r1 = block_wire b1 @ [] \<and> data_values b1 = [[]]"
    by (simp add: b1_def r1_def block_lines_def NewReader_def block_wire_def wire_lines_def
        data_values_def f)
  have h2: "block_lines b2 \<and> buf r2 = block_wire b2 @ [] \<and> data_values b2 = [] \<and> LF \<notin> set []"
    by (simp add: b2_def r2_def block_lines_def NewReader_def block_wire_def wire_lines_def
        data_values_def f)
  have v: "effective_id (lastID r1) b1 = ''5''" "block_name b1 = ''x''"
    by (simp_all add: b1_def effective_id_def block_id_def block_name_def f)
  have 1: "Reader_Next r1 =
        (Inr \<lparr>ID = effective_id (lastID r1) b1, Name = block_name b1, Data = [], Retry = 0\<rparr>,
         r1\<lparr>buf := [], lastID := effective_id (lastID r1) b1\<rparr>)"
    using dispatch_tests_buffer_before_strip[where block = b1 and r = r1 and rest = "[]"] h1
    by blast
  have 2: "Reader_Next r2 = (Inl (source_err r2), r2\<lparr>buf := []\<rparr>)"
    using dispatch_tests_buffer_before_strip[where block = b2 and r = r2 and rest = "[]"] h2
    by blast
  have e1: "Reader_Next r1 = (Inr \<lparr>ID = ''5'', Name = ''x'', Data = [], Retry = 0\<rparr>,
      \<lparr>lastID = ''5'', buf = [], source_err = EOF\<rparr>)"
    unfolding 1 v by (simp add: r1_def NewReader_def)
  have e2: "Reader_Next r2 = (Inl EOF, \<lparr>lastID = [], buf = [], source_err = EOF\<rparr>)"
    unfolding 2 by (simp add: r2_def NewReader_def)
  show ?thesis
    using e1 e2 unfolding r1_def r2_def by (rule conjI)
qed

text \<open>
  Claim C10: when \<open>Event.Write\<close> returns no error, it has appended to its
  destination exactly the bytes \<open>Event.Encode\<close> returns; and it returns no error on
  a destination whose writes do not fail.
\<close>

theorem Write_agrees_with_Encode:
  "(fst (Write e d) = None \<longrightarrow> written (snd (Write e d)) = written d @ Encode e)
   \<and> (never_fails d \<longrightarrow> fst (Write e d) = None)"
  using Write_written[of e d] Write_never_fails[of d e] by blast

text \<open>The event of the test of \<open>Write\<close>, written to an empty buffer.\<close>

theorem Write_agrees_with_Encode_witness:
  "written (snd (Write \<lparr>ID = ''some-id'', Name = ''some-name'',
       Data = ''some-data'' @ [LF] @ ''some-more-data'' @ [LF], Retry = 0\<rparr>
     \<lparr>written = [], outcomes = []\<rparr>)) =
   Encode \<lparr>ID = ''some-id'', Name = ''some-name'',
       Data = ''some-data'' @ [LF] @ ''some-more-data'' @ [LF], Retry = 0\<rparr>"
proof -
  define e where "e = \<lparr>ID = ''some-id'', Name = ''some-name'',
       Data = ''some-data'' @ [LF] @ ''some-more-data'' @ [LF], Retry = 0\<rparr>"
  define d where "d = \<lparr>written = [], outcomes = []\<rparr>"
  have n: "never_fails d"
    by (simp add: never_fails_def d_def)
  have "fst (Write e d) = None"
    using Write_agrees_with_Encode[of e d] n by blast
  then have "written (snd (Write e d)) = written d @ Encode e"
    using Write_agrees_with_Encode[of e d] by blast
  then have "written (snd (Write e d)) = Encode e"
    by (simp add: d_def)
  then show ?thesis
    unfolding e_def d_def .
qed

end
